theory Spec2Isabelle
  imports Main "HOL-Library.Sublist" "HOL-Library.Code_Target_Numeral"
begin

section \<open>JavaScript values, errors and strings\<close>

text \<open>
  The module \<^verbatim>\<open>src/index.js\<close> is modelled function by function. A call either returns a
  value (\<open>Inr\<close>) or stops with an error (\<open>Inl\<close>):
  \<^item> \<open>TypeError\<close>: the JavaScript exception (a method read off \<^verbatim>\<open>undefined\<close>, a number that
    has no \<^verbatim>\<open>split\<close>, an invalid version handed to the version comparator);
  \<^item> \<open>RangeError\<close>: the JavaScript exception of an array that grows beyond
    \<open>2^32 - 1\<close> elements;
  \<^item> \<open>QueryError\<close>: an error raised by the query engine, which the module lets through;
  \<^item> \<open>Unmodelled\<close>: the input leaves the fragment of JavaScript numbers and of the version
    comparator that this development describes (integers beyond \<open>2^53 - 1\<close>, version
    strings with characters other than digits and dots). Nothing is stated about such
    calls.

  Strings are lists of 8-bit characters, read as the code units below 256.
\<close>

datatype error = TypeError | RangeError | QueryError | Unmodelled

datatype jsval = JUndefined | JNull | JStr string | JNum int

definition bindE :: "error + 'a \<Rightarrow> ('a \<Rightarrow> error + 'b) \<Rightarrow> error + 'b" where
  "bindE m f = (case m of Inl e \<Rightarrow> Inl e | Inr x \<Rightarrow> f x)"

fun index_in :: "'a list \<Rightarrow> 'a \<Rightarrow> nat option" where
  "index_in [] x = None"
| "index_in (y # ys) x = (if x = y then Some 0 else map_option Suc (index_in ys x))"

definition digit_val :: "char \<Rightarrow> nat option" where
  "digit_val c = index_in ''0123456789'' c"

definition is_digit :: "char \<Rightarrow> bool" where
  "is_digit c = (digit_val c \<noteq> None)"

definition hex_val :: "char \<Rightarrow> nat option" where
  "hex_val c = (case index_in ''0123456789abcdef'' c of
                  Some n \<Rightarrow> Some n
                | None \<Rightarrow> index_in ''0123456789ABCDEF'' c)"

definition radix_val :: "nat \<Rightarrow> char \<Rightarrow> nat option" where
  "radix_val R c = (if R = 16 then hex_val c else digit_val c)"

text \<open>The value of a digit string in radix \<open>R\<close>, most significant digit first.\<close>

definition radix_value :: "nat \<Rightarrow> string \<Rightarrow> nat" where
  "radix_value R Z = foldl (\<lambda>acc c. acc * R + (case radix_val R c of Some d \<Rightarrow> d | None \<Rightarrow> 0)) 0 Z"

definition digit_char :: "nat \<Rightarrow> char" where
  "digit_char n = ''0123456789'' ! (n mod 10)"

text \<open>\<^verbatim>\<open>Number.prototype.toString\<close> on an integer below \<open>10^21\<close>: the decimal digits.\<close>

fun show_nat :: "nat \<Rightarrow> string" where
  "show_nat n = (if n < 10 then [digit_char n] else show_nat (n div 10) @ [digit_char (n mod 10)])"

declare show_nat.simps [simp del]

definition show_int :: "int \<Rightarrow> string" where
  "show_int i = (if i < 0 then CHR ''-'' # show_nat (nat (- i)) else show_nat (nat i))"

definition MAX_SAFE_INTEGER :: nat where
  "MAX_SAFE_INTEGER = 9007199254740991"

text \<open>\<^verbatim>\<open>String.prototype.split\<close> with a one-character separator: never the empty array.\<close>

fun split_on :: "char \<Rightarrow> string \<Rightarrow> string list" where
  "split_on sep [] = [[]]"
| "split_on sep (c # cs) =
     (if c = sep then [] # split_on sep cs
      else (case split_on sep cs of
              p # ps \<Rightarrow> (c # p) # ps
            | [] \<Rightarrow> [[c]]))"

text \<open>\<^verbatim>\<open>Array.prototype.join\<close> on an array of strings.\<close>

fun join :: "string \<Rightarrow> string list \<Rightarrow> string" where
  "join sep [] = []"
| "join sep [x] = x"
| "join sep (x # y # ys) = x @ sep @ join sep (y # ys)"

text \<open>\<^verbatim>\<open>String.prototype.includes\<close>.\<close>

fun str_includes :: "string \<Rightarrow> string \<Rightarrow> bool" where
  "str_includes [] t = (t = [])"
| "str_includes (c # cs) t = (prefix t (c # cs) \<or> str_includes cs t)"

text \<open>
  \<^verbatim>\<open>String.prototype.toLowerCase\<close> on code units below 256: the letters A to Z and the
  upper-case letters of Latin-1 (0xC0 to 0xDE without the multiplication sign 0xD7) move
  up by 32. \<^verbatim>\<open>toLocaleLowerCase\<close> is the same function on a host whose locale has no
  special casing rules (every locale but Turkish, Azeri and Lithuanian).
\<close>

definition lower_char :: "char \<Rightarrow> char" where
  "lower_char c =
     (let n = (of_char c :: nat) in
      if (65 \<le> n \<and> n \<le> 90) \<or> (192 \<le> n \<and> n \<le> 222 \<and> n \<noteq> 215) then char_of (n + 32)
      else c)"

definition toLowerCase :: "string \<Rightarrow> string" where
  "toLowerCase s = map lower_char s"

definition toLocaleLowerCase :: "string \<Rightarrow> string" where
  "toLocaleLowerCase s = toLowerCase s"

section \<open>parseNumber and getNormalizedVersion\<close>

text \<open>
  The Number values that occur: \<^verbatim>\<open>NaN\<close> and the integers. \<^verbatim>\<open>parseInt\<close> follows ECMAScript
  with the radix left out: leading white space is dropped, one sign is read, a prefix
  \<^verbatim>\<open>0x\<close> or \<^verbatim>\<open>0X\<close> selects radix 16, and the longest run of digits is the value; no digit
  gives \<^verbatim>\<open>NaN\<close>. Beyond \<open>2^53 - 1\<close> the Number is a rounded value, which is not modelled.
\<close>

datatype number = NaN | Num int

definition is_white :: "char \<Rightarrow> bool" where
  "is_white c = ((of_char c :: nat) \<in> set [9, 10, 11, 12, 13, 32, 160])"

definition parseInt :: "string \<Rightarrow> error + number" where
  "parseInt inputString =
     (let S = dropWhile is_white inputString;
          sign = (case S of c # _ \<Rightarrow> if c = CHR ''-'' then - 1 else 1 | [] \<Rightarrow> (1::int));
          S1 = (case S of c # r \<Rightarrow> if c = CHR ''+'' \<or> c = CHR ''-'' then r else S | [] \<Rightarrow> S);
          hex = (prefix ''0x'' S1 \<or> prefix ''0X'' S1);
          S2 = (if hex then drop 2 S1 else S1);
          R = (if hex then 16 else 10);
          Z = takeWhile (\<lambda>c. radix_val R c \<noteq> None) S2
      in if Z = [] then Inr NaN
         else if radix_value R Z > MAX_SAFE_INTEGER then Inl Unmodelled
         else Inr (Num (sign * int (radix_value R Z))))"

text \<open>\<^verbatim>\<open>ToString\<close> and truthiness of the values above.\<close>

fun ToString :: "jsval \<Rightarrow> string" where
  "ToString JUndefined = ''undefined''"
| "ToString JNull = ''null''"
| "ToString (JStr s) = s"
| "ToString (JNum n) = show_int n"

fun truthy :: "jsval \<Rightarrow> bool" where
  "truthy JUndefined = False"
| "truthy JNull = False"
| "truthy (JStr s) = (s \<noteq> [])"
| "truthy (JNum n) = (n \<noteq> 0)"

text \<open>
  \<^verbatim>\<open>
  function parseNumber(value) {
    const int = parseInt(value);
    return !value || isNaN(int) ? 0 : int;
  }
  \<close>
\<close>

definition parseNumber :: "jsval \<Rightarrow> error + int" where
  "parseNumber v =
     bindE (parseInt (ToString v)) (\<lambda>int.
       Inr (if \<not> truthy v then 0 else (case int of NaN \<Rightarrow> 0 | Num n \<Rightarrow> n)))"

text \<open>
  \<^verbatim>\<open>
  function getNormalizedVersion(version = '0.0.0') {
    const [major = 0, minor = 0, patch = 0] = version.split('.').slice(0, 3);
    return [parseNumber(major), parseNumber(minor), parseNumber(patch)].join('.');
  }
  \<close>
  The default of the parameter and the defaults of the destructuring apply to
  \<^verbatim>\<open>undefined\<close> only. A number and \<^verbatim>\<open>null\<close> have no method \<^verbatim>\<open>split\<close>: the call raises.
\<close>

definition element_or :: "string list \<Rightarrow> nat \<Rightarrow> jsval \<Rightarrow> jsval" where
  "element_or xs i d = (if i < length xs then JStr (xs ! i) else d)"

definition getNormalizedVersion :: "jsval \<Rightarrow> error + string" where
  "getNormalizedVersion v =
     (case (if v = JUndefined then JStr ''0.0.0'' else v) of
        JStr version \<Rightarrow>
          (let parts = take 3 (split_on CHR ''.'' version);
               major = element_or parts 0 (JNum 0);
               minor = element_or parts 1 (JNum 0);
               patch = element_or parts 2 (JNum 0)
           in bindE (parseNumber major) (\<lambda>a.
              bindE (parseNumber minor) (\<lambda>b.
              bindE (parseNumber patch) (\<lambda>c.
                Inr (join ''.'' [show_int a, show_int b, show_int c])))))
      | _ \<Rightarrow> Inl TypeError)"

section \<open>The version comparator\<close>

text \<open>
  Modelled from the spec: the Semantic Version Comparator of section 6 (the package
  \<^verbatim>\<open>semver\<close>, which \<^verbatim>\<open>src/index.js\<close> requires and which is not part of the repository):
  validity check, parse, increment of the minor component, greater-or-equal, and the
  "satisfies range" predicate for a plain reference and for the tilde and caret ranges.
  The definitions follow the package's documented behaviour on version strings made of
  digits and dots:
  \<^item> a version is three numeric identifiers, each at most \<open>2^53 - 1\<close>, in a string of at
    most 256 characters; the strict reading refuses leading zeros, the loose one takes them;
  \<^item> \<^verbatim>\<open>~M.m.p\<close> is \<^verbatim>\<open>>=M.m.p <M.(m+1).0\<close>;
  \<^item> \<^verbatim>\<open>^M.m.p\<close> is \<^verbatim>\<open>>=M.m.p <(M+1).0.0\<close>, for \<open>M = 0\<close> it is \<^verbatim>\<open>>=0.m.p <0.(m+1).0\<close>, and for
    \<open>M = m = 0\<close> it is \<^verbatim>\<open>>=0.0.p <0.0.(p+1)\<close>;
  \<^item> a range whose bound is not a version is invalid, and nothing satisfies an invalid range;
  \<^item> \<^verbatim>\<open>gte\<close> raises on an invalid version, \<^verbatim>\<open>satisfies\<close> answers \<^verbatim>\<open>false\<close>, \<^verbatim>\<open>inc\<close> answers
    \<^verbatim>\<open>null\<close>.
  Every other string (a pre-release or build tag, a leading \<^verbatim>\<open>v\<close>, an operator, an x-range)
  is answered by \<open>Unmodelled\<close>; so is the loose reading of four or more components, which
  takes the tail of the third one as a pre-release tag, and the loose reading of a component
  of more than 16 digits whose value is small (it has leading zeros), on which the releases
  of the package differ.
\<close>

type_synonym semver = "nat \<times> nat \<times> nat"

definition MAX_LENGTH :: nat where
  "MAX_LENGTH = 256"

definition plain :: "string \<Rightarrow> bool" where
  "plain s = list_all (\<lambda>c. is_digit c \<or> c = CHR ''.'') s"

definition digits :: "string \<Rightarrow> bool" where
  "digits s = (s \<noteq> [] \<and> list_all is_digit s)"

definition numeric_identifier :: "string \<Rightarrow> bool" where
  "numeric_identifier s = (digits s \<and> (s = ''0'' \<or> \<not> prefix ''0'' s))"

definition decimal :: "string \<Rightarrow> nat" where
  "decimal s = radix_value 10 s"

definition valid_semver :: "semver \<Rightarrow> bool" where
  "valid_semver v =
     (case v of (major, minor, patch) \<Rightarrow>
        major \<le> MAX_SAFE_INTEGER \<and> minor \<le> MAX_SAFE_INTEGER \<and> patch \<le> MAX_SAFE_INTEGER)"

definition semver_parse :: "bool \<Rightarrow> string \<Rightarrow> error + semver option" where
  "semver_parse loose version =
     (if \<not> plain version then Inl Unmodelled
      else if length version > MAX_LENGTH then Inr None
      else (case split_on CHR ''.'' version of
              [a, b, c] \<Rightarrow>
                if list_all (if loose then digits else numeric_identifier) [a, b, c]
                   \<and> valid_semver (decimal a, decimal b, decimal c)
                then if loose \<and> \<not> list_all (\<lambda>x. length x \<le> 16) [a, b, c]
                     then Inl Unmodelled
                     else Inr (Some (decimal a, decimal b, decimal c))
                else Inr None
            | a # b # c # d # ds \<Rightarrow>
                if loose \<and> digits a \<and> digits b \<and> digits c \<and> 2 \<le> length c
                   \<and> list_all digits (d # ds)
                then Inl Unmodelled
                else Inr None
            | _ \<Rightarrow> Inr None))"

definition semver_format :: "semver \<Rightarrow> string" where
  "semver_format v =
     (case v of (major, minor, patch) \<Rightarrow>
        join ''.'' [show_nat major, show_nat minor, show_nat patch])"

definition semver_compare :: "semver \<Rightarrow> semver \<Rightarrow> int" where
  "semver_compare x y =
     (case x of (a1, b1, c1) \<Rightarrow> case y of (a2, b2, c2) \<Rightarrow>
        if a1 \<noteq> a2 then (if a1 < a2 then - 1 else 1)
        else if b1 \<noteq> b2 then (if b1 < b2 then - 1 else 1)
        else if c1 \<noteq> c2 then (if c1 < c2 then - 1 else 1)
        else 0)"

text \<open>\<^verbatim>\<open>new SemVer(version)\<close>: raises on an invalid version.\<close>

definition semver_new :: "string \<Rightarrow> error + semver" where
  "semver_new version =
     (case semver_parse False version of
        Inl e \<Rightarrow> Inl e
      | Inr None \<Rightarrow> Inl TypeError
      | Inr (Some v) \<Rightarrow> Inr v)"

definition semver_gte :: "string \<Rightarrow> string \<Rightarrow> error + bool" where
  "semver_gte a b =
     bindE (semver_new a) (\<lambda>x. bindE (semver_new b) (\<lambda>y. Inr (0 \<le> semver_compare x y)))"

text \<open>\<^verbatim>\<open>semver.inc(version, 'minor')\<close>: \<open>None\<close> is the answer \<^verbatim>\<open>null\<close>.\<close>

definition semver_inc_minor :: "string \<Rightarrow> error + string option" where
  "semver_inc_minor version =
     (case semver_parse False version of
        Inl e \<Rightarrow> Inl e
      | Inr None \<Rightarrow> Inr None
      | Inr (Some (major, minor, patch)) \<Rightarrow> Inr (Some (semver_format (major, minor + 1, 0))))"

datatype comparator = GE semver | LT semver | EQ semver

fun comparator_test :: "semver \<Rightarrow> comparator \<Rightarrow> bool" where
  "comparator_test v (GE b) = (0 \<le> semver_compare v b)"
| "comparator_test v (LT b) = (semver_compare v b < 0)"
| "comparator_test v (EQ b) = (semver_compare v b = 0)"

definition upper_bound :: "string \<Rightarrow> semver \<Rightarrow> semver option" where
  "upper_bound operator v =
     (case v of (M, m, p) \<Rightarrow>
        if operator = ''~'' then Some (M, m + 1, 0)
        else if operator = ''^'' then
          Some (if M = 0 then (if m = 0 then (0, 0, p + 1) else (0, m + 1, 0)) else (M + 1, 0, 0))
        else None)"

text \<open>\<open>Inr None\<close> is an invalid range.\<close>

definition range_parse :: "string \<Rightarrow> error + comparator list option" where
  "range_parse r =
     (let operator = (if prefix ''~'' r \<or> prefix ''^'' r then take 1 r else []);
          body = drop (length operator) r
      in if \<not> plain body \<or> length (split_on CHR ''.'' body) < 3 then Inl Unmodelled
         else (case semver_parse False body of
                 Inl e \<Rightarrow> Inl e
               | Inr None \<Rightarrow> Inr None
               | Inr (Some v) \<Rightarrow>
                   (case upper_bound operator v of
                      None \<Rightarrow> Inr (Some [EQ v])
                    | Some u \<Rightarrow> if valid_semver u then Inr (Some [GE v, LT u]) else Inr None)))"

definition semver_satisfies :: "string \<Rightarrow> string \<Rightarrow> error + bool" where
  "semver_satisfies version r =
     (case range_parse r of
        Inl e \<Rightarrow> Inl e
      | Inr None \<Rightarrow> Inr False
      | Inr (Some comparators) \<Rightarrow>
          (case semver_parse False version of
             Inl e \<Rightarrow> Inl e
           | Inr None \<Rightarrow> Inr False
           | Inr (Some v) \<Rightarrow> Inr (list_all (comparator_test v) comparators)))"

section \<open>semverify and generateSemversInRange\<close>

text \<open>
  \<^verbatim>\<open>
  while (split.length < 3) {
    split.push('0')
  }
  \<close>
\<close>

function pad_split :: "string list \<Rightarrow> string list" where
  "pad_split split = (if length split < 3 then pad_split (split @ [''0'']) else split)"
  by pat_completeness auto
termination
  by (relation "measure (\<lambda>split. 3 - length split)") auto

declare pad_split.simps [simp del]

text \<open>
  \<^verbatim>\<open>
  const semverify = (version) => {
    if (typeof version === 'string' && semver.valid(version, { loose: true })) {
      return semver.parse(version, { loose: true }).version
    }
    const split = version.toString().split('.')
    while (split.length < 3) { split.push('0') }
    return split.join('.')
  }
  \<close>
  \<^verbatim>\<open>undefined\<close> and \<^verbatim>\<open>null\<close> have no \<^verbatim>\<open>toString\<close>: the call raises.
\<close>

definition semverify :: "jsval \<Rightarrow> error + string" where
  "semverify version =
     (case version of
        JStr s \<Rightarrow>
          (case semver_parse True s of
             Inl e \<Rightarrow> Inl e
           | Inr (Some v) \<Rightarrow> Inr (semver_format v)
           | Inr None \<Rightarrow> Inr (join ''.'' (pad_split (split_on CHR ''.'' s))))
      | JNum n \<Rightarrow>
          if int MAX_SAFE_INTEGER < \<bar>n\<bar> then Inl Unmodelled
          else Inr (join ''.'' (pad_split (split_on CHR ''.'' (show_int n))))
      | _ \<Rightarrow> Inl TypeError)"

text \<open>
  \<^verbatim>\<open>
  while (semver.gte(endSemver, curVersion)) {
    versionsInRange.push(curVersion)
    curVersion = semver.inc(curVersion, 'minor')
  }
  return versionsInRange;
  \<close>
  An array holds at most \<open>2^32 - 1\<close> elements: the \<^verbatim>\<open>push\<close> that would exceed them raises
  \<^verbatim>\<open>RangeError\<close>. When \<^verbatim>\<open>semver.inc\<close> answers \<^verbatim>\<open>null\<close>, the next test of the guard raises.
\<close>

definition MAX_ARRAY_LENGTH :: nat where
  "MAX_ARRAY_LENGTH = 4294967295"

function range_loop :: "string \<Rightarrow> string \<Rightarrow> string list \<Rightarrow> error + string list" where
  "range_loop endSemver curVersion versionsInRange =
     (case semver_gte endSemver curVersion of
        Inl e \<Rightarrow> Inl e
      | Inr False \<Rightarrow> Inr versionsInRange
      | Inr True \<Rightarrow>
          if MAX_ARRAY_LENGTH \<le> length versionsInRange then Inl RangeError
          else (case semver_inc_minor curVersion of
                  Inl e \<Rightarrow> Inl e
                | Inr None \<Rightarrow> Inl TypeError
                | Inr (Some next) \<Rightarrow> range_loop endSemver next (versionsInRange @ [curVersion])))"
  by pat_completeness auto
termination
  by (relation "measure (\<lambda>(e, c, vs). MAX_ARRAY_LENGTH - length vs)") auto

declare range_loop.simps [simp del]

text \<open>
  \<^verbatim>\<open>
  function generateSemversInRange(versionRange) {
    const [start, end] = versionRange.split('-')
    const startSemver = semverify(start)
    const endSemver = semverify(end)
    const versionsInRange = [];
    let curVersion = startSemver;
    ...
  }
  \<close>
\<close>

definition generateSemversInRange :: "string \<Rightarrow> error + string list" where
  "generateSemversInRange versionRange =
     (let parts = split_on CHR ''-'' versionRange;
          start = element_or parts 0 JUndefined;
          endv = element_or parts 1 JUndefined
      in bindE (semverify start) (\<lambda>startSemver.
         bindE (semverify endv) (\<lambda>endSemver.
           range_loop endSemver startSemver [])))"

section \<open>normalizeQuery and parseBrowsersList\<close>

definition browserNameMap :: "(string \<times> string) list" where
  "browserNameMap =
     [(''bb'', ''BlackBerry''),
      (''and_chr'', ''Chrome''),
      (''ChromeAndroid'', ''Chrome''),
      (''FirefoxAndroid'', ''Firefox''),
      (''ff'', ''Firefox''),
      (''ie_mob'', ''ExplorerMobile''),
      (''ie'', ''Explorer''),
      (''and_ff'', ''Firefox''),
      (''ios_saf'', ''iOS''),
      (''op_mini'', ''OperaMini''),
      (''op_mob'', ''OperaMobile''),
      (''and_qq'', ''QQAndroid''),
      (''and_uc'', ''UCAndroid'')]"

text \<open>
  \<^verbatim>\<open>
  function normalizeQuery(query) {
    let normalizedQuery = query
    const regex = `(${Object.keys(browserNameMap).join('|')})`
    const match = query.match(new RegExp(regex))
    if (match) {
      normalizedQuery = query.replace(match[0], browserNameMap[match[0]])
    }
    return normalizedQuery
  }
  \<close>
  The regular expression is the alternation of the keys in the order of the table: it
  matches at the leftmost position where some key starts, with the first such key of the
  table. No occurrence of that key starts further left (the expression would have matched
  there), so the replacement of its first occurrence happens at the position of the match.
\<close>

fun normalizeQuery :: "string \<Rightarrow> string" where
  "normalizeQuery [] = []"
| "normalizeQuery (c # cs) =
     (case find (\<lambda>(key, canonical). prefix key (c # cs)) browserNameMap of
        Some (key, canonical) \<Rightarrow> canonical @ drop (length key) (c # cs)
      | None \<Rightarrow> c # normalizeQuery cs)"

text \<open>
  \<^verbatim>\<open>
  function flatten(arr) {
    return arr.reduce(function (flat, toFlatten) {
      return flat.concat(Array.isArray(toFlatten) ? flatten(toFlatten) : toFlatten);
    }, []);
  }
  \<close>
\<close>

datatype 'a nested = Leaf 'a | Arr "'a nested list"

fun flatten :: "'a nested list \<Rightarrow> 'a list" where
  "flatten [] = []"
| "flatten (Leaf x # rest) = x # flatten rest"
| "flatten (Arr xs # rest) = flatten xs @ flatten rest"

text \<open>A resolved browser and a target of the query have the same shape.\<close>

record browser =
  family :: string
  version :: string

text \<open>\<^verbatim>\<open>Array.prototype.map\<close> with a callback that may raise: the first error ends the call.\<close>

fun map_err :: "('a \<Rightarrow> error + 'b) \<Rightarrow> 'a list \<Rightarrow> error + 'b list" where
  "map_err f [] = Inr []"
| "map_err f (x # xs) = bindE (f x) (\<lambda>y. bindE (map_err f xs) (\<lambda>ys. Inr (y # ys)))"

text \<open>
  The properties that every object inherits from \<^verbatim>\<open>Object.prototype\<close>. The operator \<^verbatim>\<open>in\<close>
  finds them in \<^verbatim>\<open>browserNameMap\<close> too, and the family then is a function or an object and
  not a string: such a name is outside the model.
\<close>

definition object_prototype_keys :: "string list" where
  "object_prototype_keys =
     [''constructor'', ''hasOwnProperty'', ''isPrototypeOf'', ''propertyIsEnumerable'',
      ''toLocaleString'', ''toString'', ''valueOf'', ''__proto__'', ''__defineGetter__'',
      ''__defineSetter__'', ''__lookupGetter__'', ''__lookupSetter__'']"

text \<open>
  The callback of the second \<^verbatim>\<open>map\<close> of \<^verbatim>\<open>parseBrowsersList\<close>:
  \<^verbatim>\<open>
  let normalizedName = browser.name
  let normalizedVersion = browser.version
  if (browser.name in browserNameMap) {
    normalizedName = browserNameMap[browser.name]
  }
  if (browser.version.indexOf('-') > 0) {
    return generateSemversInRange(browser.version).map(version => ({
      family: normalizedName,
      version,
    }))
  } else {
    return { family: normalizedName, version: normalizedVersion }
  }
  \<close>
  A token without a space has the version \<^verbatim>\<open>undefined\<close>, and \<^verbatim>\<open>browser.version.indexOf\<close>
  raises.
\<close>

definition parse_browser :: "string \<times> string option \<Rightarrow> error + browser nested" where
  "parse_browser b =
     (case b of (nm, v) \<Rightarrow>
        (case v of
           None \<Rightarrow> Inl TypeError
         | Some vers \<Rightarrow>
             if map_of browserNameMap nm = None \<and> nm \<in> set object_prototype_keys
             then Inl Unmodelled
             else
               (let normalizedName = (case map_of browserNameMap nm of
                                        Some canonical \<Rightarrow> canonical
                                      | None \<Rightarrow> nm)
                in if (case index_in vers CHR ''-'' of Some i \<Rightarrow> 0 < i | None \<Rightarrow> False)
                   then bindE (generateSemversInRange vers) (\<lambda>versions.
                          Inr (Arr (map (\<lambda>v.
                            Leaf \<lparr>family = normalizedName, version = v\<rparr>) versions)))
                   else Inr (Leaf \<lparr>family = normalizedName, version = vers\<rparr>))))"

text \<open>
  \<^verbatim>\<open>
  const parseBrowsersList = (browsersList) => {
    const browsers = browsersList
      .map(browser => {
        const [name, version] = browser.split(' ')
        return { name, version }
      })
      .filter(browser => browser.version !== 'TP')
      .map(browser => { ... })
    return flatten(browsers);
  }
  \<close>
\<close>

definition parseBrowsersList :: "string list \<Rightarrow> error + browser list" where
  "parseBrowsersList browsersList =
     (let named = map (\<lambda>token.
                    (case split_on CHR '' '' token of
                       nm # vers # _ \<Rightarrow> (nm, Some vers)
                     | [nm] \<Rightarrow> (nm, None)
                     | [] \<Rightarrow> ([], None))) browsersList;
          kept = filter (\<lambda>b. snd b \<noteq> Some ''TP'') named
      in bindE (map_err parse_browser kept) (\<lambda>browsers. Inr (flatten browsers)))"

section \<open>resolveUserAgent\<close>

text \<open>
  The three replacements that strip the user agent. A matcher answers the length of the
  match that starts at the head of its argument. None of the patterns matches the empty
  string.
\<close>

fun replace_first :: "(string \<Rightarrow> nat option) \<Rightarrow> string \<Rightarrow> string" where
  "replace_first m [] = []"
| "replace_first m (c # cs) =
     (case m (c # cs) of
        Some n \<Rightarrow> drop n (c # cs)
      | None \<Rightarrow> c # replace_first m cs)"

text \<open>
  With the flag \<^verbatim>\<open>g\<close> every match is removed, from left to right, the search going on
  behind the match: the counter is the number of characters of the current match that are
  still to be dropped.
\<close>

fun replace_all :: "(string \<Rightarrow> nat option) \<Rightarrow> nat \<Rightarrow> string \<Rightarrow> string" where
  "replace_all m k [] = []"
| "replace_all m (Suc k) (c # cs) = replace_all m k cs"
| "replace_all m 0 (c # cs) =
     (case m (c # cs) of
        Some (Suc n) \<Rightarrow> replace_all m n cs
      | _ \<Rightarrow> c # replace_all m 0 cs)"

text \<open>
  \<^verbatim>\<open>(\d+)\.(\d+)\.(\d+)\.(\d+)\<close> for \<open>k = 3\<close>: \<open>k\<close> dots are still to come, and \<open>seen\<close> says that
  the current group has a digit.
\<close>

fun dotted_length :: "nat \<Rightarrow> bool \<Rightarrow> string \<Rightarrow> nat option" where
  "dotted_length k seen [] = (if k = 0 \<and> seen then Some 0 else None)"
| "dotted_length k seen (c # cs) =
     (if is_digit c then map_option Suc (dotted_length k True cs)
      else if c = CHR ''.'' \<and> seen \<and> 0 < k then map_option Suc (dotted_length (k - 1) False cs)
      else if k = 0 \<and> seen then Some 0
      else None)"

text \<open>\<^verbatim>\<open>/((CriOS|OPiOS)\/(\d+)\.(\d+)\.(\d+)\.(\d+))/\<close>\<close>

definition match_CriOS :: "string \<Rightarrow> nat option" where
  "match_CriOS s =
     (if prefix ''CriOS/'' s \<or> prefix ''OPiOS/'' s
      then map_option (\<lambda>n. 6 + n) (dotted_length 3 False (drop 6 s))
      else None)"

text \<open>
  \<^verbatim>\<open>(\d+\.?)+\<close>: the length of the longest match, \<open>0\<close> when there is none; \<open>dot\<close> says that the
  character before is a digit, so that a dot may follow.
\<close>

fun groups_length :: "bool \<Rightarrow> string \<Rightarrow> nat" where
  "groups_length dot [] = 0"
| "groups_length dot (c # cs) =
     (if is_digit c then Suc (groups_length True cs)
      else if c = CHR ''.'' \<and> dot then Suc (groups_length False cs)
      else 0)"

text \<open>\<^verbatim>\<open>/YaBrowser\/(\d+\.?)+/g\<close>\<close>

definition match_YaBrowser :: "string \<Rightarrow> nat option" where
  "match_YaBrowser s =
     (if prefix ''YaBrowser/'' s \<and> 0 < groups_length False (drop 10 s)
      then Some (10 + groups_length False (drop 10 s))
      else None)"

definition match_literal :: "string \<Rightarrow> string \<Rightarrow> nat option" where
  "match_literal lit s = (if prefix lit s then Some (length lit) else None)"

definition strip_user_agent :: "string \<Rightarrow> string" where
  "strip_user_agent uaString =
     (let strippedUA = replace_first match_CriOS uaString;
          strippedUA1 = replace_all match_YaBrowser 0 strippedUA;
          strippedUA2 = replace_all (match_literal ''FB_IAB'') 0 strippedUA1
      in replace_all (match_literal ''FBAN/FBIOS'') 0 strippedUA2)"

text \<open>
  The answer of the tokenizer (the package \<^verbatim>\<open>ua-parser-js\<close>): every field may be absent.
  The tokenizer and the query engine (the package \<^verbatim>\<open>browserslist\<close>) are collaborators that
  the module calls; they are parameters of the model, together with the working directory
  of the process.
\<close>

record ua_part =
  name :: "string option"
  uaversion :: "string option"

record parsedUA =
  browser :: ua_part
  os :: ua_part
  engine :: ua_part

record world =
  UAParser :: "string \<Rightarrow> parsedUA"
  browserslist :: "string list option \<Rightarrow> string option \<Rightarrow> string \<Rightarrow> error + string list"
  process_cwd :: string

definition optional :: "string option \<Rightarrow> jsval" where
  "optional x = (case x of None \<Rightarrow> JUndefined | Some s \<Rightarrow> JStr s)"

text \<open>\<^verbatim>\<open>a || b\<close>\<close>

definition or_else :: "jsval \<Rightarrow> jsval \<Rightarrow> jsval" where
  "or_else a b = (if truthy a then a else b)"

text \<open>
  \<^verbatim>\<open>resolveUserAgent\<close>, rule by rule in the order of the source: the sentinel when no
  browser name is found, case A (Safari on iOS), case B (another browser on iOS), case C
  (the families that the compatibility data does not list), and the default.
\<close>

definition resolveUserAgent :: "world \<Rightarrow> string \<Rightarrow> error + browser" where
  "resolveUserAgent w uaString =
     (let parsed = UAParser w (strip_user_agent uaString) in
      case name (browser parsed) of
        None \<Rightarrow> Inr \<lparr>family = [], version = ''0.0.0''\<rparr>
      | Some browser_name \<Rightarrow>
          if browser_name = [] then Inr \<lparr>family = [], version = ''0.0.0''\<rparr>
          else if str_includes browser_name ''Safari'' \<and> name (os parsed) = Some ''iOS'' then
            bindE (getNormalizedVersion
                     (or_else (optional (uaversion (browser parsed)))
                              (optional (uaversion (os parsed))))) (\<lambda>v.
              Inr \<lparr>family = ''iOS'', version = v\<rparr>)
          else if name (os parsed) = Some ''iOS'' then
            bindE (getNormalizedVersion (optional (uaversion (os parsed)))) (\<lambda>v.
              Inr \<lparr>family = ''iOS'', version = v\<rparr>)
          else
            bindE (getNormalizedVersion (optional (uaversion (browser parsed)))) (\<lambda>vers.
              if str_includes browser_name ''Chrome Mobile''
                 \<or> str_includes browser_name ''Chrome WebView''
                 \<or> str_includes browser_name ''Chromium''
                 \<or> str_includes browser_name ''Chrome Headless''
              then Inr \<lparr>family = ''Chrome'', version = vers\<rparr>
              else if browser_name = ''Samsung Browser''
              then Inr \<lparr>family = ''Samsung'', version = vers\<rparr>
              else if browser_name = ''Firefox Mobile''
              then Inr \<lparr>family = ''Firefox'', version = vers\<rparr>
              else if browser_name = ''IE''
              then Inr \<lparr>family = ''Explorer'', version = vers\<rparr>
              else if browser_name = ''IEMobile''
              then Inr \<lparr>family = ''ExplorerMobile'', version = vers\<rparr>
              else if name (engine parsed) = Some ''Blink'' \<and> name (os parsed) = Some ''Android''
              then bindE (getNormalizedVersion (optional (uaversion (engine parsed)))) (\<lambda>v.
                     Inr \<lparr>family = ''Chrome'', version = v\<rparr>)
              else if browser_name = ''Android Browser''
              then bindE (getNormalizedVersion (optional (uaversion (os parsed)))) (\<lambda>v.
                     Inr \<lparr>family = ''Android'', version = v\<rparr>)
              else Inr \<lparr>family = browser_name, version = vers\<rparr>))"

text \<open>
  The family-specific rules of case C, in the order of the source: some rule applies to the
  browser name and the answer of the tokenizer.
\<close>

definition override_rule :: "string \<Rightarrow> parsedUA \<Rightarrow> bool" where
  "override_rule browser_name parsed =
     (str_includes browser_name ''Chrome Mobile''
      \<or> str_includes browser_name ''Chrome WebView''
      \<or> str_includes browser_name ''Chromium''
      \<or> str_includes browser_name ''Chrome Headless''
      \<or> browser_name = ''Samsung Browser''
      \<or> browser_name = ''Firefox Mobile''
      \<or> browser_name = ''IE''
      \<or> browser_name = ''IEMobile''
      \<or> (name (engine parsed) = Some ''Blink'' \<and> name (os parsed) = Some ''Android'')
      \<or> browser_name = ''Android Browser'')"

section \<open>compareBrowserSemvers and matchesUA\<close>

record options =
  ignoreMinor :: bool
  ignorePatch :: bool
  allowHigherVersions :: bool

text \<open>
  \<^verbatim>\<open>
  const compareBrowserSemvers = (versionA, versionB, options) => {
    const semverifiedA = semverify(versionA)
    const semverifiedB = semverify(versionB)
    let referenceVersion = semverifiedB
    if (options.ignorePatch) { referenceVersion = `~${semverifiedB}` }
    if (options.ignoreMinor) { referenceVersion = `^${semverifiedB}` }
    if (options.allowHigherVersions) {
      return semver.gte(semverifiedA, semverifiedB)
    } else {
      return semver.satisfies(semverifiedA, referenceVersion)
    }
  }
  \<close>
\<close>

definition compareBrowserSemvers :: "jsval \<Rightarrow> jsval \<Rightarrow> options \<Rightarrow> error + bool" where
  "compareBrowserSemvers versionA versionB options =
     bindE (semverify versionA) (\<lambda>semverifiedA.
     bindE (semverify versionB) (\<lambda>semverifiedB.
       (let referenceVersion = semverifiedB;
            referenceVersion1 = (if ignorePatch options then ''~'' @ semverifiedB
                                 else referenceVersion);
            referenceVersion2 = (if ignoreMinor options then ''^'' @ semverifiedB
                                 else referenceVersion1)
        in if allowHigherVersions options then semver_gte semverifiedA semverifiedB
           else semver_satisfies semverifiedA referenceVersion2)))"

text \<open>
  The options of the caller: a field that is left out is \<open>None\<close>.
  \<^verbatim>\<open>
  const options = {
    ignoreMinor: false,
    ignorePatch: true,
    ...opts,
  }
  \<close>
  The comparison reads the three fields by their truth value, so an absent
  \<^verbatim>\<open>allowHigherVersions\<close> counts as \<^verbatim>\<open>false\<close>.
\<close>

record opts =
  opts_browsers :: "string list option"
  opts_env :: "string option"
  opts_path :: "string option"
  opts_ignoreMinor :: "bool option"
  opts_ignorePatch :: "bool option"
  opts_allowHigherVersions :: "bool option"

definition merge_options :: "opts \<Rightarrow> options" where
  "merge_options opts =
     \<lparr>ignoreMinor = (case opts_ignoreMinor opts of Some b \<Rightarrow> b | None \<Rightarrow> False),
      ignorePatch = (case opts_ignorePatch opts of Some b \<Rightarrow> b | None \<Rightarrow> True),
      allowHigherVersions = (case opts_allowHigherVersions opts of Some b \<Rightarrow> b | None \<Rightarrow> False)\<rparr>"

text \<open>\<^verbatim>\<open>Array.prototype.some\<close> with a callback that may raise.\<close>

fun array_some :: "('a \<Rightarrow> error + bool) \<Rightarrow> 'a list \<Rightarrow> error + bool" where
  "array_some p [] = Inr False"
| "array_some p (x # xs) =
     (case p x of
        Inl e \<Rightarrow> Inl e
      | Inr True \<Rightarrow> Inr True
      | Inr False \<Rightarrow> array_some p xs)"

text \<open>
  The callback of \<^verbatim>\<open>some\<close> in \<^verbatim>\<open>matchesUA\<close>:
  \<^verbatim>\<open>
  browser.family.toLowerCase() === resolvedUserAgent.family.toLocaleLowerCase() &&
  compareBrowserSemvers(resolvedUserAgent.version, browser.version, options)
  \<close>
\<close>

definition target_matches :: "browser \<Rightarrow> options \<Rightarrow> browser \<Rightarrow> error + bool" where
  "target_matches resolvedUserAgent options target =
     (if toLowerCase (family target) = toLocaleLowerCase (family resolvedUserAgent)
      then compareBrowserSemvers (JStr (version resolvedUserAgent)) (JStr (version target)) options
      else Inr False)"

text \<open>
  \<^verbatim>\<open>
  const matchesUA = (uaString, opts = {}) => {
    let normalizedQuery
    if (opts.browsers) {
      normalizedQuery = opts.browsers.map(normalizeQuery)
    }
    const browsers = browserslist(normalizedQuery, {
      env: opts.env,
      path: opts.path || process.cwd()
    })
    const parsedBrowsers = parseBrowsersList(browsers)
    const resolvedUserAgent = resolveUserAgent(uaString)
    const options = { ignoreMinor: false, ignorePatch: true, ...opts }
    return parsedBrowsers.some(browser => { ... })
  }
  \<close>
\<close>

definition call_browserslist :: "world \<Rightarrow> opts \<Rightarrow> error + string list" where
  "call_browserslist w opts =
     (let normalizedQuery = map_option (map normalizeQuery) (opts_browsers opts);
          path = (case opts_path opts of
                    Some p \<Rightarrow> if p = [] then process_cwd w else p
                  | None \<Rightarrow> process_cwd w)
      in browserslist w normalizedQuery (opts_env opts) path)"

definition matchesUA :: "world \<Rightarrow> string \<Rightarrow> opts \<Rightarrow> error + bool" where
  "matchesUA w uaString opts =
     bindE (call_browserslist w opts) (\<lambda>browsers.
     bindE (parseBrowsersList browsers) (\<lambda>parsedBrowsers.
     bindE (resolveUserAgent w uaString) (\<lambda>resolvedUserAgent.
       array_some (target_matches resolvedUserAgent (merge_options opts)) parsedBrowsers)))"

section \<open>Notions of the specification\<close>

text \<open>
  The words of the specification about versions: the normalized version that the
  comparator reads (\<^verbatim>\<open>semverify\<close>, then the strict parser), the ordering by major, then
  minor, then patch, and the caret range of a reference: from the reference up to, and
  without, the next major version (the next minor version when the major component is 0,
  the next patch version when major and minor are 0).

  A statement about normalized versions speaks of the version strings that the model of the
  comparator covers, those of digits and dots: on every other string \<open>normalized\<close> is
  \<open>Unmodelled\<close>, and so is the comparison.
\<close>

definition normalized :: "jsval \<Rightarrow> error + semver" where
  "normalized v = bindE (semverify v) semver_new"

definition version_geq :: "semver \<Rightarrow> semver \<Rightarrow> bool" where
  "version_geq x y =
     (case x of (a1, b1, c1) \<Rightarrow> case y of (a2, b2, c2) \<Rightarrow>
        a2 < a1 \<or> (a1 = a2 \<and> (b2 < b1 \<or> (b1 = b2 \<and> c2 \<le> c1))))"

definition caret_bound :: "semver \<Rightarrow> semver" where
  "caret_bound v =
     (case v of (M, m, p) \<Rightarrow>
        if M \<noteq> 0 then (M + 1, 0, 0) else if m \<noteq> 0 then (0, m + 1, 0) else (0, 0, p + 1))"

definition in_caret_range :: "semver \<Rightarrow> semver \<Rightarrow> bool" where
  "in_caret_range candidate reference =
     (valid_semver (caret_bound reference) \<and> version_geq candidate reference
      \<and> \<not> version_geq candidate (caret_bound reference))"

text \<open>An integer in decimal notation: digits, after an optional minus sign.\<close>

definition int_literal :: "string \<Rightarrow> bool" where
  "int_literal s = (case s of c # r \<Rightarrow> if c = CHR ''-'' then digits r else digits s | [] \<Rightarrow> False)"

text \<open>
  Two strings that differ in the case of their letters only: position by position the
  characters are equal or one is the lower-case form of the other.
\<close>

definition same_letter :: "char \<Rightarrow> char \<Rightarrow> bool" where
  "same_letter c d = (c = d \<or> d = lower_char c \<or> c = lower_char d)"

definition case_variant :: "string \<Rightarrow> string \<Rightarrow> bool" where
  "case_variant s t = list_all2 same_letter s t"

section \<open>Sample collaborators\<close>

text \<open>
  A tokenizer and a query engine for the examples: the tokenizer knows four user agents
  (Chrome on an iPhone once its marker is stripped, an in-app browser on an iPhone, Safari
  on a Mac, and a command-line client that is no browser), the query engine answers a
  fixed list of targets.
\<close>

definition sample_UAParser :: "string \<Rightarrow> parsedUA" where
  "sample_UAParser ua =
     (if str_includes ua ''iPhone OS 13_3'' \<and> str_includes ua ''Safari/'' then
        \<lparr>browser = \<lparr>name = Some ''Mobile Safari'', uaversion = None\<rparr>,
         os = \<lparr>name = Some ''iOS'', uaversion = Some ''13.3''\<rparr>,
         engine = \<lparr>name = Some ''WebKit'', uaversion = Some ''605.1.15''\<rparr>\<rparr>
      else if str_includes ua ''iPhone OS 13_3'' then
        \<lparr>browser = \<lparr>name = Some ''WebKit'', uaversion = Some ''605.1.15''\<rparr>,
         os = \<lparr>name = Some ''iOS'', uaversion = Some ''13.3''\<rparr>,
         engine = \<lparr>name = Some ''WebKit'', uaversion = Some ''605.1.15''\<rparr>\<rparr>
      else if str_includes ua ''Macintosh'' then
        \<lparr>browser = \<lparr>name = Some ''Safari'', uaversion = Some ''13.0.4''\<rparr>,
         os = \<lparr>name = Some ''Mac OS'', uaversion = Some ''10.15.2''\<rparr>,
         engine = \<lparr>name = Some ''WebKit'', uaversion = Some ''605.1.15''\<rparr>\<rparr>
      else
        \<lparr>browser = \<lparr>name = None, uaversion = None\<rparr>,
         os = \<lparr>name = None, uaversion = None\<rparr>,
         engine = \<lparr>name = None, uaversion = None\<rparr>\<rparr>)"

definition sample_world :: world where
  "sample_world =
     \<lparr>UAParser = sample_UAParser,
      browserslist = (\<lambda>query env path.
        Inr [''ios_saf 13.0-13.3'', ''safari 13'', ''chrome 79'', ''safari TP'']),
      process_cwd = ''/''\<rparr>"

text \<open>The targets that the answer of the sample query engine parses to.\<close>

definition sample_parsed :: "browser list" where
  "sample_parsed =
     [\<lparr>family = ''iOS'', version = ''13.0.0''\<rparr>,
      \<lparr>family = ''iOS'', version = ''13.1.0''\<rparr>,
      \<lparr>family = ''iOS'', version = ''13.2.0''\<rparr>,
      \<lparr>family = ''iOS'', version = ''13.3.0''\<rparr>,
      \<lparr>family = ''safari'', version = ''13''\<rparr>,
      \<lparr>family = ''chrome'', version = ''79''\<rparr>]"

definition ua_iphone_chrome :: string where
  "ua_iphone_chrome =
     ''Mozilla/5.0 (iPhone; CPU iPhone OS 13_3 like Mac OS X) AppleWebKit/605.1.15 (KHTML, like Gecko) CriOS/79.0.3945.73 Mobile/15E148 Safari/605.1''"

definition ua_iphone_webview :: string where
  "ua_iphone_webview =
     ''Mozilla/5.0 (iPhone; CPU iPhone OS 13_3 like Mac OS X) AppleWebKit/605.1.15 (KHTML, like Gecko) Mobile/15E148''"

definition ua_mac_safari :: string where
  "ua_mac_safari =
     ''Mozilla/5.0 (Macintosh; Intel Mac OS X 10_15_2) AppleWebKit/605.1.15 (KHTML, like Gecko) Version/13.0.4 Safari/605.1.15''"

definition ua_curl :: string where
  "ua_curl = ''curl/7.64.1''"

definition no_opts :: opts where
  "no_opts =
     \<lparr>opts_browsers = None, opts_env = None, opts_path = None,
      opts_ignoreMinor = None, opts_ignorePatch = None, opts_allowHigherVersions = None\<rparr>"

section \<open>Errors and their propagation\<close>

lemma bindE_Inr [simp]: "bindE (Inr x) f = f x"
  by (simp add: bindE_def)

lemma bindE_Inl [simp]: "bindE (Inl e) f = Inl e"
  by (simp add: bindE_def)

lemma bindE_eq_Inr: "bindE m f = Inr y \<longleftrightarrow> (\<exists>x. m = Inr x \<and> f x = Inr y)"
  by (cases m) auto

lemma bindE_eq_Inl: "bindE m f = Inl e \<longleftrightarrow> (m = Inl e \<or> (\<exists>x. m = Inr x \<and> f x = Inl e))"
  by (cases m) auto

lemma parseInt_error: "parseInt s = Inl e \<Longrightarrow> e = Unmodelled"
  by (auto simp: parseInt_def Let_def split: if_splits)

lemma parseNumber_error: "parseNumber v = Inl e \<Longrightarrow> e = Unmodelled"
  by (auto simp: parseNumber_def bindE_eq_Inl dest: parseInt_error)

lemma getNormalizedVersion_error:
  "getNormalizedVersion v = Inl e \<Longrightarrow> v = JUndefined \<or> (\<exists>s. v = JStr s) \<Longrightarrow> e = Unmodelled"
  by (auto simp: getNormalizedVersion_def Let_def bindE_eq_Inl dest: parseNumber_error)

lemma optional_cases: "optional x = JUndefined \<or> (\<exists>s. optional x = JStr s)"
  by (cases x) (auto simp: optional_def)

lemma or_else_cases:
  "or_else (optional x) (optional y) = JUndefined
   \<or> (\<exists>s. or_else (optional x) (optional y) = JStr s)"
  using optional_cases[of x] optional_cases[of y] by (auto simp: or_else_def)

lemma resolveUserAgent_error: "resolveUserAgent w ua = Inl e \<Longrightarrow> e = Unmodelled"
  unfolding resolveUserAgent_def Let_def
  by (auto simp: bindE_eq_Inl split: option.splits if_splits
      dest!: getNormalizedVersion_error[OF _ optional_cases]
             getNormalizedVersion_error[OF _ or_else_cases])

lemma array_some_all_False: "\<forall>x\<in>set xs. p x = Inr False \<Longrightarrow> array_some p xs = Inr False"
  by (induction xs) auto

lemma matchesUA_unfold:
  assumes "call_browserslist w opts = Inr tokens"
      and "parseBrowsersList tokens = Inr targets"
      and "resolveUserAgent w uaString = Inr resolved"
  shows "matchesUA w uaString opts =
         array_some (target_matches resolved (merge_options opts)) targets"
  using assms by (simp add: matchesUA_def)

section \<open>Resolution of the user agent\<close>

text \<open>
  C5. When the tokenizer reports the OS iOS and a browser name: if the name contains
  "Safari", the resolved family is "iOS" with the normalized browser version, and with the
  normalized OS version when the browser version is absent (or empty); if the name does not
  contain "Safari", the resolved family is "iOS" with the normalized OS version. ("Reports
  a browser name" is the premise of both halves: without a name the sentinel rule comes
  first.)
\<close>

theorem resolveUserAgent_iOS:
  assumes os: "name (os (UAParser w (strip_user_agent uaString))) = Some ''iOS''"
      and br: "name (browser (UAParser w (strip_user_agent uaString))) = Some n" "n \<noteq> []"
  shows "(str_includes n ''Safari'' \<longrightarrow>
            (\<forall>bv. uaversion (browser (UAParser w (strip_user_agent uaString))) = Some bv
                    \<and> bv \<noteq> [] \<longrightarrow>
                resolveUserAgent w uaString =
                  bindE (getNormalizedVersion (JStr bv))
                        (\<lambda>v. Inr \<lparr>family = ''iOS'', version = v\<rparr>))
          \<and> (uaversion (browser (UAParser w (strip_user_agent uaString))) \<in> {None, Some []} \<longrightarrow>
                resolveUserAgent w uaString =
                  bindE (getNormalizedVersion
                           (optional (uaversion (os (UAParser w (strip_user_agent uaString))))))
                        (\<lambda>v. Inr \<lparr>family = ''iOS'', version = v\<rparr>)))
       \<and> (\<not> str_includes n ''Safari'' \<longrightarrow>
            resolveUserAgent w uaString =
              bindE (getNormalizedVersion
                       (optional (uaversion (os (UAParser w (strip_user_agent uaString))))))
                    (\<lambda>v. Inr \<lparr>family = ''iOS'', version = v\<rparr>))"
  using os br by (auto simp: resolveUserAgent_def Let_def or_else_def optional_def)

theorem resolveUserAgent_iOS_witness:
  "name (os (UAParser sample_world (strip_user_agent ua_iphone_chrome))) = Some ''iOS''
   \<and> name (browser (UAParser sample_world (strip_user_agent ua_iphone_chrome)))
       = Some ''Mobile Safari''
   \<and> str_includes ''Mobile Safari'' ''Safari''
   \<and> uaversion (browser (UAParser sample_world (strip_user_agent ua_iphone_chrome)))
       \<in> {None, Some []}
   \<and> resolveUserAgent sample_world ua_iphone_chrome
       = Inr \<lparr>family = ''iOS'', version = ''13.3.0''\<rparr>
   \<and> name (os (UAParser sample_world (strip_user_agent ua_iphone_webview))) = Some ''iOS''
   \<and> name (browser (UAParser sample_world (strip_user_agent ua_iphone_webview)))
       = Some ''WebKit''
   \<and> \<not> str_includes ''WebKit'' ''Safari''
   \<and> resolveUserAgent sample_world ua_iphone_webview
       = Inr \<lparr>family = ''iOS'', version = ''13.3.0''\<rparr>"
proof -
  have os: "name (os (UAParser sample_world (strip_user_agent ua_iphone_chrome))) = Some ''iOS''"
    by code_simp
  have br: "name (browser (UAParser sample_world (strip_user_agent ua_iphone_chrome)))
            = Some ''Mobile Safari''"
    by code_simp
  have bv: "uaversion (browser (UAParser sample_world (strip_user_agent ua_iphone_chrome))) = None"
    by code_simp
  have ov: "uaversion (os (UAParser sample_world (strip_user_agent ua_iphone_chrome)))
            = Some ''13.3''"
    by code_simp
  have inc: "str_includes ''Mobile Safari'' ''Safari''"
    by simp
  have nv: "getNormalizedVersion (JStr ''13.3'') = Inr ''13.3.0''"
    by code_simp
  from resolveUserAgent_iOS[OF os br] inc bv ov nv
  have r1: "resolveUserAgent sample_world ua_iphone_chrome
        = Inr \<lparr>family = ''iOS'', version = ''13.3.0''\<rparr>"
    by (simp add: optional_def)
  have os': "name (os (UAParser sample_world (strip_user_agent ua_iphone_webview))) = Some ''iOS''"
    by code_simp
  have br': "name (browser (UAParser sample_world (strip_user_agent ua_iphone_webview)))
            = Some ''WebKit''"
    by code_simp
  have ov': "uaversion (os (UAParser sample_world (strip_user_agent ua_iphone_webview)))
            = Some ''13.3''"
    by code_simp
  have exc: "\<not> str_includes ''WebKit'' ''Safari''"
    by simp
  from resolveUserAgent_iOS[OF os' br'] exc ov' nv
  have r2: "resolveUserAgent sample_world ua_iphone_webview
        = Inr \<lparr>family = ''iOS'', version = ''13.3.0''\<rparr>"
    by (simp add: optional_def)
  from bv have bv': "uaversion (browser (UAParser sample_world (strip_user_agent ua_iphone_chrome)))
       \<in> {None, Some []}"
    by simp
  show ?thesis
    by (intro conjI) (rule os br inc bv' r1 os' br' exc r2)+
qed

text \<open>
  C8. \<^verbatim>\<open>resolveUserAgent\<close> never raises: no call ends in a JavaScript exception. When the
  tokenizer reports no browser name (absent or empty), the result is the sentinel with the
  empty family and the version 0.0.0, and \<^verbatim>\<open>matchesUA\<close> returns \<^verbatim>\<open>false\<close> for every parsed
  target list whose families are all non-empty.
\<close>

lemma toLowerCase_Nil_iff: "toLowerCase s = toLocaleLowerCase [] \<longleftrightarrow> s = []"
  by (simp add: toLowerCase_def toLocaleLowerCase_def)

theorem resolveUserAgent_sentinel:
  assumes nb: "name (browser (UAParser w (strip_user_agent uaString))) \<in> {None, Some []}"
      and bl: "call_browserslist w opts = Inr tokens"
      and pb: "parseBrowsersList tokens = Inr targets"
      and fam: "\<forall>t\<in>set targets. family t \<noteq> []"
  shows "resolveUserAgent w' ua' \<notin> {Inl TypeError, Inl RangeError, Inl QueryError}
       \<and> resolveUserAgent w uaString = Inr \<lparr>family = [], version = ''0.0.0''\<rparr>
       \<and> matchesUA w uaString opts = Inr False"
proof -
  have never: "resolveUserAgent w' ua' \<notin> {Inl TypeError, Inl RangeError, Inl QueryError}"
    using resolveUserAgent_error[of w' ua'] by auto
  have sentinel: "resolveUserAgent w uaString = Inr \<lparr>family = [], version = ''0.0.0''\<rparr>"
    using nb by (auto simp: resolveUserAgent_def Let_def)
  have "\<forall>t\<in>set targets.
          target_matches \<lparr>family = [], version = ''0.0.0''\<rparr> (merge_options opts) t = Inr False"
    using fam by (simp add: target_matches_def toLowerCase_Nil_iff)
  then have "matchesUA w uaString opts = Inr False"
    using matchesUA_unfold[OF bl pb sentinel] by (simp add: array_some_all_False)
  with never sentinel show ?thesis by simp
qed

lemma sample_tokens:
  "call_browserslist sample_world no_opts
     = Inr [''ios_saf 13.0-13.3'', ''safari 13'', ''chrome 79'', ''safari TP'']"
  by (simp add: call_browserslist_def sample_world_def no_opts_def)

lemma sample_targets:
  "parseBrowsersList [''ios_saf 13.0-13.3'', ''safari 13'', ''chrome 79'', ''safari TP'']
     = Inr sample_parsed"
  by code_simp

theorem resolveUserAgent_sentinel_witness:
  "name (browser (UAParser sample_world (strip_user_agent ua_curl))) \<in> {None, Some []}
   \<and> resolveUserAgent sample_world ua_curl = Inr \<lparr>family = [], version = ''0.0.0''\<rparr>
   \<and> matchesUA sample_world ua_curl no_opts = Inr False"
proof -
  have nb: "name (browser (UAParser sample_world (strip_user_agent ua_curl))) \<in> {None, Some []}"
    by code_simp
  have fam: "\<forall>t\<in>set sample_parsed. family t \<noteq> []"
    by (simp add: sample_parsed_def)
  show ?thesis
    using resolveUserAgent_sentinel[OF nb sample_tokens sample_targets fam] nb by simp
qed

text \<open>
  C10. When the tokenizer reports a browser name that contains "Safari", an OS other than
  iOS, and no family-specific rule applies, the resolved family is the reported browser
  name itself, with the normalized browser version.
\<close>

theorem resolveUserAgent_Safari_off_iOS:
  assumes p: "UAParser w (strip_user_agent uaString) = parsed"
      and br: "name (browser parsed) = Some n"
      and saf: "str_includes n ''Safari''"
      and os: "name (os parsed) \<noteq> Some ''iOS''"
      and no_rule: "\<not> override_rule n parsed"
  shows "resolveUserAgent w uaString =
           bindE (getNormalizedVersion (optional (uaversion (browser parsed))))
                 (\<lambda>v. Inr \<lparr>family = n, version = v\<rparr>)"
proof -
  from saf have "n \<noteq> []" by auto
  with p br saf os no_rule show ?thesis
    unfolding resolveUserAgent_def override_rule_def Let_def
    by (cases "getNormalizedVersion (optional (uaversion (browser parsed)))") auto
qed

theorem resolveUserAgent_Safari_off_iOS_witness:
  "name (browser (UAParser sample_world (strip_user_agent ua_mac_safari))) = Some ''Safari''
   \<and> str_includes ''Safari'' ''Safari''
   \<and> name (os (UAParser sample_world (strip_user_agent ua_mac_safari))) \<noteq> Some ''iOS''
   \<and> \<not> override_rule ''Safari'' (UAParser sample_world (strip_user_agent ua_mac_safari))
   \<and> resolveUserAgent sample_world ua_mac_safari
       = Inr \<lparr>family = ''Safari'', version = ''13.0.4''\<rparr>"
proof -
  define parsed where "parsed = UAParser sample_world (strip_user_agent ua_mac_safari)"
  have pv: "parsed = \<lparr>browser = \<lparr>name = Some ''Safari'', uaversion = Some ''13.0.4''\<rparr>,
                      os = \<lparr>name = Some ''Mac OS'', uaversion = Some ''10.15.2''\<rparr>,
                      engine = \<lparr>name = Some ''WebKit'', uaversion = Some ''605.1.15''\<rparr>\<rparr>"
    unfolding parsed_def by code_simp
  have br: "name (browser parsed) = Some ''Safari''"
    by (simp add: pv)
  have saf: "str_includes ''Safari'' ''Safari''"
    by simp
  have os: "name (os parsed) \<noteq> Some ''iOS''"
    by (simp add: pv)
  have no_rule: "\<not> override_rule ''Safari'' parsed"
    by (simp add: pv override_rule_def)
  have nv: "getNormalizedVersion (JStr ''13.0.4'') = Inr ''13.0.4''"
    by code_simp
  have "resolveUserAgent sample_world ua_mac_safari
        = Inr \<lparr>family = ''Safari'', version = ''13.0.4''\<rparr>"
    using resolveUserAgent_Safari_off_iOS[OF parsed_def[symmetric] br saf os no_rule] nv
    by (simp add: pv optional_def)
  with br saf os no_rule show ?thesis
    by (simp add: parsed_def)
qed

section \<open>Decimal numerals and the format of a version\<close>

lemma is_digit_iff: "is_digit c \<longleftrightarrow> c \<in> set ''0123456789''"
  by (simp add: is_digit_def digit_val_def)

lemma digit_val_digit_char: "n < 10 \<Longrightarrow> digit_val (digit_char n) = Some n"
proof -
  assume "n < 10"
  then have "n \<in> {0, 1, 2, 3, 4, 5, 6, 7, 8, 9}" by auto
  then show ?thesis
    by (auto simp: digit_val_def digit_char_def)
qed

lemma is_digit_digit_char: "is_digit (digit_char n)"
  using digit_val_digit_char[of "n mod 10"] by (simp add: is_digit_def digit_char_def)

lemma digit_char_digit_val: "digit_val c = Some d \<Longrightarrow> digit_char d = c"
  by (auto simp: digit_val_def digit_char_def split: if_splits)

lemma digit_val_less: "digit_val c = Some d \<Longrightarrow> d < 10"
  by (auto simp: digit_val_def split: if_splits)

lemma not_digit_dot [simp]: "\<not> is_digit CHR ''.''"
  by (simp add: is_digit_iff)

lemma not_digit_minus [simp]: "\<not> is_digit CHR ''-''"
  by (simp add: is_digit_iff)

lemma show_nat_digits: "list_all is_digit (show_nat n)"
  by (induction n rule: show_nat.induct) (subst show_nat.simps, simp add: is_digit_digit_char)

lemma show_nat_not_Nil [simp]: "show_nat n \<noteq> []"
  by (subst show_nat.simps) simp

lemma digits_show_nat: "digits (show_nat n)"
  by (simp add: digits_def show_nat_digits)

lemma decimal_Nil [simp]: "decimal [] = 0"
  by (simp add: decimal_def radix_value_def)

lemma decimal_snoc:
  "decimal (s @ [c]) = decimal s * 10 + (case digit_val c of Some d \<Rightarrow> d | None \<Rightarrow> 0)"
  by (simp add: decimal_def radix_value_def radix_val_def)

lemma decimal_show_nat: "decimal (show_nat n) = n"
proof (induction n rule: show_nat.induct)
  case (1 n)
  show ?case
  proof (cases "n < 10")
    case True
    then show ?thesis
      using decimal_snoc[of "[]" "digit_char n"]
      by (subst show_nat.simps) (simp add: digit_val_digit_char)
  next
    case False
    then show ?thesis
      using 1 by (subst show_nat.simps) (simp add: decimal_snoc digit_val_digit_char)
  qed
qed

lemma hd_show_nat: "0 < n \<Longrightarrow> hd (show_nat n) \<noteq> CHR ''0''"
proof (induction n rule: show_nat.induct)
  case (1 n)
  show ?case
  proof (cases "n < 10")
    case True
    with 1(2) have "n \<in> {1, 2, 3, 4, 5, 6, 7, 8, 9}" by auto
    then show ?thesis
      by (subst show_nat.simps) (auto simp: digit_char_def)
  next
    case False
    then have "0 < n div 10" by simp
    with 1 False show ?thesis
      by (subst show_nat.simps) simp
  qed
qed

lemma show_nat_0: "show_nat 0 = ''0''"
  by (subst show_nat.simps) (simp add: digit_char_def)

lemma prefix_zero_iff: "prefix ''0'' s \<longleftrightarrow> s \<noteq> [] \<and> hd s = CHR ''0''"
  by (cases s) auto

lemma numeric_identifier_show_nat: "numeric_identifier (show_nat n)"
proof (cases "n = 0")
  case True
  then show ?thesis
    by (simp add: numeric_identifier_def digits_def show_nat_0 is_digit_iff)
next
  case False
  then show ?thesis
    using hd_show_nat[of n] by (simp add: numeric_identifier_def digits_show_nat prefix_zero_iff)
qed

lemma length_show_nat: "n < 10 ^ k \<Longrightarrow> 0 < k \<Longrightarrow> length (show_nat n) \<le> k"
proof (induction n arbitrary: k rule: show_nat.induct)
  case (1 n)
  show ?case
  proof (cases "n < 10")
    case True
    with 1(3) show ?thesis by (subst show_nat.simps) simp
  next
    case False
    obtain j where k: "k = Suc j" using 1(3) by (cases k) auto
    from False 1(2) k have "0 < j" by (cases j) auto
    moreover from 1(2) k have "n div 10 < 10 ^ j" by (simp add: less_mult_imp_div_less mult.commute)
    ultimately have "length (show_nat (n div 10)) \<le> j" using 1(1)[OF False] by simp
    with False k show ?thesis by (subst show_nat.simps) simp
  qed
qed

lemma length_show_nat_safe: "n \<le> MAX_SAFE_INTEGER \<Longrightarrow> length (show_nat n) \<le> 16"
  by (rule length_show_nat) (simp_all add: MAX_SAFE_INTEGER_def)

lemma foldl_digits_pos:
  "0 < a \<Longrightarrow> 0 < foldl (\<lambda>acc c. acc * 10 + (case digit_val c of Some d \<Rightarrow> d | None \<Rightarrow> 0)) a s"
  for a :: nat
  by (induction s arbitrary: a) auto

lemma decimal_pos:
  assumes "digits s" "\<not> prefix ''0'' s"
  shows "0 < decimal s"
proof -
  from assms obtain c cs where s: "s = c # cs" by (cases s) (auto simp: digits_def)
  with assms obtain d where d: "digit_val c = Some d" by (auto simp: digits_def is_digit_def)
  with assms s have "0 < d" by (cases "d = 0") (auto simp: digit_val_def split: if_splits)
  with s d show ?thesis
    by (simp add: decimal_def radix_value_def radix_val_def foldl_digits_pos)
qed

lemma show_nat_decimal: "numeric_identifier s \<Longrightarrow> show_nat (decimal s) = s"
proof (induction s rule: rev_induct)
  case Nil
  then show ?case by (simp add: numeric_identifier_def digits_def)
next
  case (snoc c xs)
  from snoc.prems obtain d where d: "digit_val c = Some d"
    by (auto simp: numeric_identifier_def digits_def is_digit_def)
  show ?case
  proof (cases "xs = []")
    case True
    with d show ?thesis
      using decimal_snoc[of "[]" c] digit_val_less[OF d]
      by (subst show_nat.simps) (simp add: digit_char_digit_val)
  next
    case False
    with snoc.prems have ni: "numeric_identifier xs" and nz: "\<not> prefix ''0'' xs" and dg: "digits xs"
      by (cases xs; auto simp: numeric_identifier_def digits_def)+
    from decimal_pos[OF dg nz] have "\<not> decimal xs * 10 + d < 10" by simp
    moreover have "(decimal xs * 10 + d) div 10 = decimal xs" "(decimal xs * 10 + d) mod 10 = d"
      using digit_val_less[OF d] by simp_all
    ultimately show ?thesis
      using snoc.IH[OF ni] d
      by (subst show_nat.simps) (simp add: decimal_snoc digit_char_digit_val)
  qed
qed

lemma split_on_not_Nil [simp]: "split_on sep s \<noteq> []"
  by (induction s) (auto split: list.splits)

lemma split_on_no_sep: "sep \<notin> set s \<Longrightarrow> split_on sep s = [s]"
  by (induction s) auto

lemma split_on_append: "sep \<notin> set a \<Longrightarrow> split_on sep (a @ sep # r) = a # split_on sep r"
  by (induction a) auto

lemma join_Cons_Cons: "join sep ((c # p) # ps) = c # join sep (p # ps)"
  by (cases ps) auto

lemma join_split_on: "join [sep] (split_on sep s) = s"
proof (induction s)
  case Nil
  then show ?case by simp
next
  case (Cons c cs)
  obtain p ps where ps: "split_on sep cs = p # ps"
    by (cases "split_on sep cs") auto
  with Cons show ?case by (auto simp: join_Cons_Cons)
qed

lemma dot_notin_show_nat: "CHR ''.'' \<notin> set (show_nat n)"
  using show_nat_digits[of n] by (auto simp: list_all_iff)

lemma split_semver_format:
  "split_on CHR ''.'' (semver_format (a, b, c)) = [show_nat a, show_nat b, show_nat c]"
  by (simp add: semver_format_def split_on_append split_on_no_sep dot_notin_show_nat)

lemma plain_semver_format: "plain (semver_format v)"
  using show_nat_digits by (cases v) (auto simp: plain_def semver_format_def list_all_iff)

lemma length_semver_format: "valid_semver v \<Longrightarrow> length (semver_format v) \<le> MAX_LENGTH"
proof -
  assume "valid_semver v"
  then obtain a b c where v: "v = (a, b, c)" and
    "a \<le> MAX_SAFE_INTEGER" "b \<le> MAX_SAFE_INTEGER" "c \<le> MAX_SAFE_INTEGER"
    by (cases v) (auto simp: valid_semver_def)
  then have "length (show_nat a) \<le> 16" "length (show_nat b) \<le> 16" "length (show_nat c) \<le> 16"
    by (simp_all add: length_show_nat_safe)
  with v show ?thesis by (simp add: semver_format_def MAX_LENGTH_def)
qed

lemma semver_parse_format:
  "semver_parse loose (semver_format v) = Inr (if valid_semver v then Some v else None)"
proof (cases v)
  case (fields a b c)
  show ?thesis
    using length_semver_format[of v]
      length_show_nat_safe[of a] length_show_nat_safe[of b] length_show_nat_safe[of c]
    by (auto simp: semver_parse_def plain_semver_format fields split_semver_format
        digits_show_nat numeric_identifier_show_nat decimal_show_nat not_less valid_semver_def)
qed

lemma semver_parse_strict_format:
  assumes "semver_parse False s = Inr (Some v)"
  shows "semver_format v = s"
proof -
  from assms obtain a b c where sp: "split_on CHR ''.'' s = [a, b, c]"
    and ni: "numeric_identifier a" "numeric_identifier b" "numeric_identifier c"
    and v: "v = (decimal a, decimal b, decimal c)"
    by (auto simp: semver_parse_def split: if_splits list.splits)
  from join_split_on[of "CHR ''.''" s] sp have "s = a @ ''.'' @ b @ ''.'' @ c" by simp
  with ni v show ?thesis by (simp add: semver_format_def show_nat_decimal)
qed

section \<open>Facts about the version comparator\<close>

lemma semver_compare_geq: "0 \<le> semver_compare x y \<longleftrightarrow> version_geq x y"
  by (cases x; cases y) (auto simp: semver_compare_def version_geq_def)

lemma semver_compare_less: "semver_compare x y < 0 \<longleftrightarrow> \<not> version_geq x y"
  by (cases x; cases y) (auto simp: semver_compare_def version_geq_def)

lemma semver_compare_eq: "semver_compare x y = 0 \<longleftrightarrow> x = y"
  by (cases x; cases y) (auto simp: semver_compare_def)

lemma semver_new_iff: "semver_new s = Inr v \<longleftrightarrow> semver_parse False s = Inr (Some v)"
  by (auto simp: semver_new_def split: sum.splits option.splits)

lemma semver_new_format: "semver_new s = Inr v \<Longrightarrow> s = semver_format v"
  by (simp add: semver_new_iff semver_parse_strict_format)

lemma semver_new_valid: "semver_new s = Inr v \<Longrightarrow> valid_semver v"
  by (auto simp: semver_new_iff semver_parse_def split: if_splits list.splits)

lemma semver_new_of_format: "valid_semver v \<Longrightarrow> semver_new (semver_format v) = Inr v"
  by (simp add: semver_new_def semver_parse_format)

lemma semver_gte_iff:
  "semver_gte a b = Inr t \<longleftrightarrow>
     (\<exists>x y. semver_new a = Inr x \<and> semver_new b = Inr y \<and> t = version_geq x y)"
  by (auto simp: semver_gte_def bindE_eq_Inr semver_compare_geq)

lemma hd_semver_format: "is_digit (hd (semver_format v))"
proof (cases v)
  case (fields a b c)
  obtain d ds where "show_nat a = d # ds" by (cases "show_nat a") auto
  with show_nat_digits[of a] fields show ?thesis by (simp add: semver_format_def)
qed

lemma semver_format_not_Nil [simp]: "semver_format v \<noteq> []"
  by (cases v) (simp add: semver_format_def)

lemma format_no_operator:
  "\<not> prefix ''~'' (semver_format v)" "\<not> prefix ''^'' (semver_format v)"
  using hd_semver_format[of v] by (cases "semver_format v"; auto simp: is_digit_iff)+

lemma range_parse_format:
  assumes "valid_semver v" "operator \<in> {[], ''~'', ''^''}"
  shows "range_parse (operator @ semver_format v) =
           Inr (case upper_bound operator v of
                  None \<Rightarrow> Some [EQ v]
                | Some u \<Rightarrow> if valid_semver u then Some [GE v, LT u] else None)"
proof -
  obtain a b c where v: "v = (a, b, c)" by (cases v)
  have len: "length (split_on CHR ''.'' (semver_format v)) = 3"
    by (simp add: v split_semver_format)
  from assms(2) show ?thesis
    using assms(1) len format_no_operator[of v]
    by (auto simp: range_parse_def Let_def plain_semver_format semver_parse_format
        split: option.splits)
qed

lemma pad_split_eq: "pad_split xs = xs @ replicate (3 - length xs) ''0''"
proof (induction xs rule: pad_split.induct)
  case (1 split)
  show ?case
  proof (cases "length split < 3")
    case True
    then have "3 - length split = Suc (3 - length (split @ [''0'']))" by simp
    with 1 True show ?thesis
      by (subst pad_split.simps) (simp add: replicate_append_same)
  next
    case False
    then show ?thesis by (subst pad_split.simps) simp
  qed
qed

lemma join_Cons: "join sep (x # ys) = x @ concat (map ((@) sep) ys)"
  by (induction ys arbitrary: x) auto

lemma join_append:
  "xs \<noteq> [] \<Longrightarrow> join sep (xs @ ys) = join sep xs @ concat (map ((@) sep) ys)"
  by (cases xs) (simp_all add: join_Cons)

lemma semverify_padded:
  "join ''.'' (pad_split (split_on CHR ''.'' s))
     = s @ concat (map ((@) ''.'') (replicate (3 - length (split_on CHR ''.'' s)) ''0''))"
  by (simp add: pad_split_eq join_append join_split_on)

lemma prefix_single: "prefix [c] s \<longleftrightarrow> s \<noteq> [] \<and> hd s = c"
  by (cases s) auto

lemma hd_show_int: "hd (show_int n) = CHR ''-'' \<or> is_digit (hd (show_int n))"
proof (cases "n < 0")
  case True
  then show ?thesis by (simp add: show_int_def)
next
  case False
  obtain d ds where "show_nat (nat n) = d # ds" by (cases "show_nat (nat n)") auto
  with show_nat_digits[of "nat n"] False show ?thesis by (simp add: show_int_def)
qed

lemma show_int_not_Nil [simp]: "show_int n \<noteq> []"
  by (simp add: show_int_def)

lemma semverify_no_operator:
  assumes "semverify v = Inr y"
  shows "\<not> prefix ''~'' y \<and> \<not> prefix ''^'' y"
proof (cases v)
  case (JStr s)
  show ?thesis
  proof (cases "semver_parse True s")
    case (Inl e)
    with assms JStr show ?thesis by (simp add: semverify_def)
  next
    case (Inr r)
    show ?thesis
    proof (cases r)
      case (Some u)
      with assms JStr Inr show ?thesis
        using format_no_operator[of u] by (auto simp: semverify_def)
    next
      case None
      with Inr have pl: "plain s" by (auto simp: semver_parse_def split: if_splits)
      from assms JStr Inr None
      have y: "y = s @ concat (map ((@) ''.'') (replicate (3 - length (split_on CHR ''.'' s)) ''0''))"
        by (simp add: semverify_def semverify_padded)
      show ?thesis
      proof (cases s)
        case Nil
        with y show ?thesis by (simp add: numeral_3_eq_3)
      next
        case (Cons c cs)
        with pl have "is_digit c \<or> c = CHR ''.''" by (simp add: plain_def)
        with y Cons show ?thesis by (auto simp: is_digit_iff)
      qed
    qed
  qed
next
  case (JNum n)
  with assms have "y = show_int n @ concat (map ((@) ''.'')
                         (replicate (3 - length (split_on CHR ''.'' (show_int n))) ''0''))"
    by (simp add: semverify_def semverify_padded split: if_splits)
  then have "hd y = hd (show_int n)" "y \<noteq> []" by simp_all
  with hd_show_int[of n] show ?thesis by (auto simp: prefix_single is_digit_iff)
qed (use assms in \<open>simp_all add: semverify_def\<close>)

lemma range_parse_Some:
  assumes "range_parse (operator @ y) = Inr (Some cs)"
      and "operator \<in> {''~'', ''^''} \<or> (operator = [] \<and> \<not> prefix ''~'' y \<and> \<not> prefix ''^'' y)"
  shows "\<exists>v. semver_new y = Inr v"
  using assms
  by (auto simp: range_parse_def Let_def semver_new_iff split: if_splits sum.splits option.splits)

lemma semver_satisfies_iff:
  assumes "operator \<in> {''~'', ''^''} \<or> (operator = [] \<and> \<not> prefix ''~'' y \<and> \<not> prefix ''^'' y)"
  shows "semver_satisfies x (operator @ y) = Inr True \<longleftrightarrow>
           (\<exists>vx vy. semver_new x = Inr vx \<and> semver_new y = Inr vy \<and>
              (case upper_bound operator vy of
                 None \<Rightarrow> vx = vy
               | Some u \<Rightarrow> valid_semver u \<and> version_geq vx vy \<and> \<not> version_geq vx u))"
proof
  assume sat: "semver_satisfies x (operator @ y) = Inr True"
  then obtain cs vx where rp: "range_parse (operator @ y) = Inr (Some cs)"
    and vx: "semver_new x = Inr vx" and all: "list_all (comparator_test vx) cs"
    by (auto simp: semver_satisfies_def semver_new_iff split: sum.splits option.splits)
  from range_parse_Some[OF rp assms] obtain vy where vy: "semver_new y = Inr vy" by blast
  from assms have op: "operator \<in> {[], ''~'', ''^''}" by auto
  from rp all vy show "\<exists>vx vy. semver_new x = Inr vx \<and> semver_new y = Inr vy \<and>
              (case upper_bound operator vy of
                 None \<Rightarrow> vx = vy
               | Some u \<Rightarrow> valid_semver u \<and> version_geq vx vy \<and> \<not> version_geq vx u)"
    using vx range_parse_format[OF semver_new_valid[OF vy] op] semver_new_format[OF vy]
    by (auto simp: semver_compare_geq semver_compare_less semver_compare_eq
        split: option.splits if_splits)
next
  assume "\<exists>vx vy. semver_new x = Inr vx \<and> semver_new y = Inr vy \<and>
              (case upper_bound operator vy of
                 None \<Rightarrow> vx = vy
               | Some u \<Rightarrow> valid_semver u \<and> version_geq vx vy \<and> \<not> version_geq vx u)"
  then obtain vx vy where vx: "semver_new x = Inr vx" and vy: "semver_new y = Inr vy"
    and c: "case upper_bound operator vy of
                 None \<Rightarrow> vx = vy
               | Some u \<Rightarrow> valid_semver u \<and> version_geq vx vy \<and> \<not> version_geq vx u"
    by blast
  from assms have op: "operator \<in> {[], ''~'', ''^''}" by auto
  from c vx show "semver_satisfies x (operator @ y) = Inr True"
    using range_parse_format[OF semver_new_valid[OF vy] op] semver_new_format[OF vy]
    by (auto simp: semver_satisfies_def semver_new_iff semver_compare_geq semver_compare_less
        semver_compare_eq split: option.splits)
qed

section \<open>The comparison policy\<close>

lemma normalized_iff:
  "normalized a = Inr v \<longleftrightarrow> (\<exists>x. semverify a = Inr x \<and> semver_new x = Inr v)"
  by (simp add: normalized_def bindE_eq_Inr)

lemma compareBrowserSemvers_iff:
  "compareBrowserSemvers a b options = Inr t \<longleftrightarrow>
     (\<exists>x y. semverify a = Inr x \<and> semverify b = Inr y \<and>
        (if allowHigherVersions options then semver_gte x y
         else semver_satisfies x
                ((if ignoreMinor options then ''^'' else if ignorePatch options then ''~'' else [])
                 @ y)) = Inr t)"
  by (auto simp: compareBrowserSemvers_def Let_def bindE_eq_Inr)

lemma upper_bound_caret: "upper_bound ''^'' v = Some (caret_bound v)"
  by (cases v) (auto simp: upper_bound_def caret_bound_def)

lemma upper_bound_exact: "upper_bound [] v = None"
  by (cases v) (auto simp: upper_bound_def)

lemma semver_satisfies_exact:
  assumes "\<not> prefix ''~'' y" "\<not> prefix ''^'' y"
  shows "semver_satisfies x y = Inr True \<longleftrightarrow>
           (\<exists>v. semver_new x = Inr v \<and> semver_new y = Inr v)"
  using semver_satisfies_iff[of "[]" y x] assms by (simp add: upper_bound_exact)

lemma semver_satisfies_caret:
  "semver_satisfies x (CHR ''^'' # y) = Inr True \<longleftrightarrow>
     (\<exists>vx vy. semver_new x = Inr vx \<and> semver_new y = Inr vy \<and> in_caret_range vx vy)"
  using semver_satisfies_iff[of "''^''" y x]
  by (simp add: upper_bound_caret in_caret_range_def)

lemma array_some_True: "array_some p xs = Inr True \<Longrightarrow> \<exists>x\<in>set xs. p x = Inr True"
  by (induction xs) (auto split: sum.splits bool.splits if_splits)

text \<open>
  C6. With \<^verbatim>\<open>allowHigherVersions\<close> set, the comparison returns \<^verbatim>\<open>true\<close> if and only if the
  normalized candidate is greater than or equal to the normalized reference in the order
  by major, minor and patch, whatever \<^verbatim>\<open>ignorePatch\<close> and \<^verbatim>\<open>ignoreMinor\<close> say. The candidate
  12.0.0 matches the reference 10.0.0 with \<^verbatim>\<open>allowHigherVersions = true\<close>, and does not
  match it when the option is \<^verbatim>\<open>false\<close> or absent and the other options are the defaults.
\<close>

theorem allowHigherVersions_geq:
  "(allowHigherVersions options \<longrightarrow>
      (compareBrowserSemvers a b options = Inr True \<longleftrightarrow>
         (\<exists>va vb. normalized a = Inr va \<and> normalized b = Inr vb \<and> version_geq va vb)))
   \<and> compareBrowserSemvers (JStr ''12.0.0'') (JStr ''10.0.0'')
        (merge_options (no_opts\<lparr>opts_allowHigherVersions := Some True\<rparr>)) = Inr True
   \<and> compareBrowserSemvers (JStr ''12.0.0'') (JStr ''10.0.0'')
        (merge_options (no_opts\<lparr>opts_allowHigherVersions := Some False\<rparr>)) = Inr False
   \<and> compareBrowserSemvers (JStr ''12.0.0'') (JStr ''10.0.0'') (merge_options no_opts) = Inr False"
proof -
  have general: "allowHigherVersions options \<longrightarrow>
      (compareBrowserSemvers a b options = Inr True \<longleftrightarrow>
         (\<exists>va vb. normalized a = Inr va \<and> normalized b = Inr vb \<and> version_geq va vb))"
    by (auto simp: compareBrowserSemvers_iff normalized_iff semver_gte_iff)
  have e1: "compareBrowserSemvers (JStr ''12.0.0'') (JStr ''10.0.0'')
        (merge_options (no_opts\<lparr>opts_allowHigherVersions := Some True\<rparr>)) = Inr True"
    by code_simp
  have e2: "compareBrowserSemvers (JStr ''12.0.0'') (JStr ''10.0.0'')
        (merge_options (no_opts\<lparr>opts_allowHigherVersions := Some False\<rparr>)) = Inr False"
    by code_simp
  have e3: "compareBrowserSemvers (JStr ''12.0.0'') (JStr ''10.0.0'') (merge_options no_opts)
        = Inr False"
    by code_simp
  from general e1 e2 e3 show ?thesis by blast
qed

theorem allowHigherVersions_geq_witness:
  "allowHigherVersions \<lparr>ignoreMinor = True, ignorePatch = False, allowHigherVersions = True\<rparr>
   \<and> normalized (JStr ''10.4'') = Inr (10, 4, 0)
   \<and> normalized (JStr ''10.3.7'') = Inr (10, 3, 7)
   \<and> version_geq (10, 4, 0) (10, 3, 7)
   \<and> compareBrowserSemvers (JStr ''10.4'') (JStr ''10.3.7'')
        \<lparr>ignoreMinor = True, ignorePatch = False, allowHigherVersions = True\<rparr> = Inr True"
proof -
  have n1: "normalized (JStr ''10.4'') = Inr (10, 4, 0)" by code_simp
  have n2: "normalized (JStr ''10.3.7'') = Inr (10, 3, 7)" by code_simp
  have g: "version_geq (10, 4, 0) (10, 3, 7)" by (simp add: version_geq_def)
  from n1 n2 g have "\<exists>va vb. normalized (JStr ''10.4'') = Inr va
      \<and> normalized (JStr ''10.3.7'') = Inr vb \<and> version_geq va vb"
    by blast
  with allowHigherVersions_geq[of "\<lparr>ignoreMinor = True, ignorePatch = False, allowHigherVersions = True\<rparr>"
      "JStr ''10.4''" "JStr ''10.3.7''"] n1 n2 g
  show ?thesis by simp
qed

text \<open>
  C3. The options of the caller win over the defaults: for every caller, each of the flags
  \<^verbatim>\<open>ignorePatch\<close>, \<^verbatim>\<open>ignoreMinor\<close> and \<^verbatim>\<open>allowHigherVersions\<close> of the merged options is the value
  that the caller supplies, and the default (\<^verbatim>\<open>true\<close>, \<^verbatim>\<open>false\<close>, and absent, which counts as
  \<^verbatim>\<open>false\<close>) only when the caller leaves the flag out; these merged options are what
  \<^verbatim>\<open>matchesUA\<close> hands to the comparison of every target. With \<^verbatim>\<open>{ignorePatch: false}\<close> and
  neither \<^verbatim>\<open>ignoreMinor\<close> nor \<^verbatim>\<open>allowHigherVersions\<close>, the merged options have all three
  flags off, a candidate matches a reference exactly when both normalize to the same valid
  version string, and a call of \<^verbatim>\<open>matchesUA\<close> that returns \<^verbatim>\<open>true\<close> has a target whose
  normalized version is the normalized resolved version.
\<close>

theorem ignorePatch_false_exact:
  assumes "opts_ignorePatch opts = Some False"
      and "opts_ignoreMinor opts = None"
      and "opts_allowHigherVersions opts = None"
  shows "ignorePatch (merge_options caller)
           = (case opts_ignorePatch caller of Some supplied \<Rightarrow> supplied | None \<Rightarrow> True)
       \<and> ignoreMinor (merge_options caller)
           = (case opts_ignoreMinor caller of Some supplied \<Rightarrow> supplied | None \<Rightarrow> False)
       \<and> allowHigherVersions (merge_options caller)
           = (case opts_allowHigherVersions caller of Some supplied \<Rightarrow> supplied | None \<Rightarrow> False)
       \<and> (\<forall>tokens targets resolved.
            call_browserslist w' caller = Inr tokens \<and> parseBrowsersList tokens = Inr targets
            \<and> resolveUserAgent w' ua' = Inr resolved \<longrightarrow>
            matchesUA w' ua' caller
              = array_some
                  (\<lambda>target.
                     if toLowerCase (family target) = toLocaleLowerCase (family resolved)
                     then compareBrowserSemvers (JStr (version resolved)) (JStr (version target))
                            (merge_options caller)
                     else Inr False)
                  targets)
       \<and> merge_options opts
           = \<lparr>ignoreMinor = False, ignorePatch = False, allowHigherVersions = False\<rparr>
       \<and> (compareBrowserSemvers a b (merge_options opts) = Inr True \<longleftrightarrow>
            (\<exists>s v. semverify a = Inr s \<and> semverify b = Inr s \<and> semver_new s = Inr v))
       \<and> (\<forall>tokens targets resolved.
            call_browserslist w opts = Inr tokens \<and> parseBrowsersList tokens = Inr targets
            \<and> resolveUserAgent w uaString = Inr resolved
            \<and> matchesUA w uaString opts = Inr True \<longrightarrow>
            (\<exists>t\<in>set targets. \<exists>s v.
               semverify (JStr (version resolved)) = Inr s
               \<and> semverify (JStr (version t)) = Inr s \<and> semver_new s = Inr v))"
proof -
  have g1: "ignorePatch (merge_options caller)
           = (case opts_ignorePatch caller of Some supplied \<Rightarrow> supplied | None \<Rightarrow> True)"
    by (simp add: merge_options_def)
  have g2: "ignoreMinor (merge_options caller)
           = (case opts_ignoreMinor caller of Some supplied \<Rightarrow> supplied | None \<Rightarrow> False)"
    by (simp add: merge_options_def)
  have g3: "allowHigherVersions (merge_options caller)
           = (case opts_allowHigherVersions caller of Some supplied \<Rightarrow> supplied | None \<Rightarrow> False)"
    by (simp add: merge_options_def)
  have g4: "\<forall>tokens targets resolved.
            call_browserslist w' caller = Inr tokens \<and> parseBrowsersList tokens = Inr targets
            \<and> resolveUserAgent w' ua' = Inr resolved \<longrightarrow>
            matchesUA w' ua' caller
              = array_some
                  (\<lambda>target.
                     if toLowerCase (family target) = toLocaleLowerCase (family resolved)
                     then compareBrowserSemvers (JStr (version resolved)) (JStr (version target))
                            (merge_options caller)
                     else Inr False)
                  targets"
  proof (intro allI impI, elim conjE)
    fix tokens targets resolved
    assume "call_browserslist w' caller = Inr tokens" "parseBrowsersList tokens = Inr targets"
      "resolveUserAgent w' ua' = Inr resolved"
    from matchesUA_unfold[OF this]
    have "matchesUA w' ua' caller
            = array_some (target_matches resolved (merge_options caller)) targets" .
    moreover have "target_matches resolved (merge_options caller)
        = (\<lambda>target.
             if toLowerCase (family target) = toLocaleLowerCase (family resolved)
             then compareBrowserSemvers (JStr (version resolved)) (JStr (version target))
                    (merge_options caller)
             else Inr False)"
      by (rule ext) (simp add: target_matches_def)
    ultimately show "matchesUA w' ua' caller
              = array_some
                  (\<lambda>target.
                     if toLowerCase (family target) = toLocaleLowerCase (family resolved)
                     then compareBrowserSemvers (JStr (version resolved)) (JStr (version target))
                            (merge_options caller)
                     else Inr False)
                  targets"
      by simp
  qed
  have m: "merge_options opts
           = \<lparr>ignoreMinor = False, ignorePatch = False, allowHigherVersions = False\<rparr>"
    using assms by (simp add: merge_options_def)
  have c: "compareBrowserSemvers a b (merge_options opts) = Inr True \<longleftrightarrow>
            (\<exists>s v. semverify a = Inr s \<and> semverify b = Inr s \<and> semver_new s = Inr v)" for a b
  proof
    assume "compareBrowserSemvers a b (merge_options opts) = Inr True"
    then obtain x y where x: "semverify a = Inr x" and y: "semverify b = Inr y"
      and sat: "semver_satisfies x ([] @ y) = Inr True"
      by (auto simp: compareBrowserSemvers_iff m)
    from semverify_no_operator[OF y] sat
    obtain v where "semver_new x = Inr v" "semver_new y = Inr v"
      by (auto simp: semver_satisfies_exact)
    then have "y = x" "semver_new x = Inr v"
      using semver_new_format[of x v] semver_new_format[of y v] by simp_all
    with x y have "semverify a = Inr x \<and> semverify b = Inr x \<and> semver_new x = Inr v"
      by simp
    then show "\<exists>s v. semverify a = Inr s \<and> semverify b = Inr s \<and> semver_new s = Inr v"
      by blast
  next
    assume "\<exists>s v. semverify a = Inr s \<and> semverify b = Inr s \<and> semver_new s = Inr v"
    then obtain s v where s: "semverify a = Inr s" "semverify b = Inr s" and v: "semver_new s = Inr v"
      by blast
    from semverify_no_operator[OF s(2)] have no: "\<not> prefix ''~'' s" "\<not> prefix ''^'' s"
      by simp_all
    from v have "semver_satisfies s s = Inr True"
      unfolding semver_satisfies_exact[OF no] by blast
    then have "semver_satisfies s ([] @ s) = Inr True"
      by simp
    with s show "compareBrowserSemvers a b (merge_options opts) = Inr True"
      by (auto simp: compareBrowserSemvers_iff m)
  qed
  have u: "\<forall>tokens targets resolved.
            call_browserslist w opts = Inr tokens \<and> parseBrowsersList tokens = Inr targets
            \<and> resolveUserAgent w uaString = Inr resolved
            \<and> matchesUA w uaString opts = Inr True \<longrightarrow>
            (\<exists>t\<in>set targets. \<exists>s v.
               semverify (JStr (version resolved)) = Inr s
               \<and> semverify (JStr (version t)) = Inr s \<and> semver_new s = Inr v)"
  proof (intro allI impI)
    fix tokens targets resolved
    assume h: "call_browserslist w opts = Inr tokens \<and> parseBrowsersList tokens = Inr targets
            \<and> resolveUserAgent w uaString = Inr resolved
            \<and> matchesUA w uaString opts = Inr True"
    then have "array_some (target_matches resolved (merge_options opts)) targets = Inr True"
      using matchesUA_unfold[of w opts tokens targets uaString resolved] by simp
    then obtain t where t: "t \<in> set targets"
      and "target_matches resolved (merge_options opts) t = Inr True"
      using array_some_True by blast
    then have "compareBrowserSemvers (JStr (version resolved)) (JStr (version t))
                 (merge_options opts) = Inr True"
      by (auto simp: target_matches_def split: if_splits)
    with c t show "\<exists>t\<in>set targets. \<exists>s v.
               semverify (JStr (version resolved)) = Inr s
               \<and> semverify (JStr (version t)) = Inr s \<and> semver_new s = Inr v"
      by blast
  qed
  show ?thesis
    by (intro conjI) (rule g1 g2 g3 g4 m c u)+
qed

theorem ignorePatch_false_exact_witness:
  "opts_ignorePatch (no_opts\<lparr>opts_ignorePatch := Some False\<rparr>) = Some False
   \<and> opts_ignoreMinor (no_opts\<lparr>opts_ignorePatch := Some False\<rparr>) = None
   \<and> opts_allowHigherVersions (no_opts\<lparr>opts_ignorePatch := Some False\<rparr>) = None
   \<and> semverify (JStr ''13.3.0'') = Inr ''13.3.0''
   \<and> semverify (JStr ''13.3'') = Inr ''13.3.0''
   \<and> compareBrowserSemvers (JStr ''13.3.0'') (JStr ''13.3'')
        (merge_options (no_opts\<lparr>opts_ignorePatch := Some False\<rparr>)) = Inr True
   \<and> ignoreMinor (merge_options (no_opts\<lparr>opts_ignoreMinor := Some True\<rparr>))
   \<and> ignorePatch (merge_options (no_opts\<lparr>opts_ignoreMinor := Some True\<rparr>))
   \<and> allowHigherVersions (merge_options (no_opts\<lparr>opts_allowHigherVersions := Some True\<rparr>))"
proof -
  have h: "opts_ignorePatch (no_opts\<lparr>opts_ignorePatch := Some False\<rparr>) = Some False"
    "opts_ignoreMinor (no_opts\<lparr>opts_ignorePatch := Some False\<rparr>) = None"
    "opts_allowHigherVersions (no_opts\<lparr>opts_ignorePatch := Some False\<rparr>) = None"
    by (simp_all add: no_opts_def)
  have s1: "semverify (JStr ''13.3.0'') = Inr ''13.3.0''" by code_simp
  have s2: "semverify (JStr ''13.3'') = Inr ''13.3.0''" by code_simp
  have v: "semver_new ''13.3.0'' = Inr (13, 3, 0)" by code_simp
  from s1 s2 v have ex: "\<exists>s v. semverify (JStr ''13.3.0'') = Inr s
      \<and> semverify (JStr ''13.3'') = Inr s \<and> semver_new s = Inr v"
    by blast
  note exact = ignorePatch_false_exact[OF h, of _ _ _ "JStr ''13.3.0''" "JStr ''13.3''",
      THEN conjunct2, THEN conjunct2, THEN conjunct2, THEN conjunct2, THEN conjunct2,
      THEN conjunct1]
  from exact ex have cmp: "compareBrowserSemvers (JStr ''13.3.0'') (JStr ''13.3'')
        (merge_options (no_opts\<lparr>opts_ignorePatch := Some False\<rparr>)) = Inr True"
    by simp
  have p1: "ignoreMinor (merge_options (no_opts\<lparr>opts_ignoreMinor := Some True\<rparr>))"
    using ignorePatch_false_exact[OF h, of "no_opts\<lparr>opts_ignoreMinor := Some True\<rparr>",
        THEN conjunct2, THEN conjunct1]
    by simp
  have p2: "ignorePatch (merge_options (no_opts\<lparr>opts_ignoreMinor := Some True\<rparr>))"
    using ignorePatch_false_exact[OF h, of "no_opts\<lparr>opts_ignoreMinor := Some True\<rparr>",
        THEN conjunct1]
    by (simp add: no_opts_def)
  have p3: "allowHigherVersions
              (merge_options (no_opts\<lparr>opts_allowHigherVersions := Some True\<rparr>))"
    using ignorePatch_false_exact[OF h,
        of "no_opts\<lparr>opts_allowHigherVersions := Some True\<rparr>",
        THEN conjunct2, THEN conjunct2, THEN conjunct1]
    by simp
  show ?thesis
    by (intro conjI) (rule h s1 s2 cmp p1 p2 p3)+
qed

text \<open>
  C9, as amended. With \<^verbatim>\<open>ignoreMinor\<close> set and \<^verbatim>\<open>allowHigherVersions\<close> not set, the comparison
  does not depend on \<^verbatim>\<open>ignorePatch\<close>, and the candidate qualifies if and only if it lies in
  the caret range of the reference (whose upper bound has to be a version itself, with
  components of at most \<open>2^53 - 1\<close>). A candidate in that range has the major component of
  the reference; the converse fails.
\<close>

theorem ignoreMinor_caret_range:
  assumes "ignoreMinor options" and "\<not> allowHigherVersions options"
  shows "compareBrowserSemvers a b options
           = compareBrowserSemvers a b (options\<lparr>ignorePatch := False\<rparr>)
       \<and> (compareBrowserSemvers a b options = Inr True \<longleftrightarrow>
            (\<exists>va vb. normalized a = Inr va \<and> normalized b = Inr vb \<and> in_caret_range va vb))
       \<and> (\<forall>va vb. in_caret_range va vb \<longrightarrow> fst va = fst vb)"
proof -
  have p: "compareBrowserSemvers a b options
           = compareBrowserSemvers a b (options\<lparr>ignorePatch := False\<rparr>)"
    using assms by (simp add: compareBrowserSemvers_def Let_def)
  have c: "compareBrowserSemvers a b options = Inr True \<longleftrightarrow>
            (\<exists>va vb. normalized a = Inr va \<and> normalized b = Inr vb \<and> in_caret_range va vb)"
    using assms
    by (auto simp: compareBrowserSemvers_iff normalized_iff semver_satisfies_caret)
  have m: "\<forall>va vb. in_caret_range va vb \<longrightarrow> fst va = fst vb"
    by (auto simp: in_caret_range_def caret_bound_def version_geq_def split: if_splits)
  from p c m show ?thesis by blast
qed

theorem ignoreMinor_caret_range_witness:
  "ignoreMinor \<lparr>ignoreMinor = True, ignorePatch = True, allowHigherVersions = False\<rparr>
   \<and> \<not> allowHigherVersions \<lparr>ignoreMinor = True, ignorePatch = True, allowHigherVersions = False\<rparr>
   \<and> normalized (JStr ''10.3.1'') = Inr (10, 3, 1)
   \<and> normalized (JStr ''10.1'') = Inr (10, 1, 0)
   \<and> in_caret_range (10, 3, 1) (10, 1, 0)
   \<and> compareBrowserSemvers (JStr ''10.3.1'') (JStr ''10.1'')
        \<lparr>ignoreMinor = True, ignorePatch = True, allowHigherVersions = False\<rparr> = Inr True"
proof -
  have n1: "normalized (JStr ''10.3.1'') = Inr (10, 3, 1)" by code_simp
  have n2: "normalized (JStr ''10.1'') = Inr (10, 1, 0)" by code_simp
  have r: "in_caret_range (10, 3, 1) (10, 1, 0)" by code_simp
  from n1 n2 r have "\<exists>va vb. normalized (JStr ''10.3.1'') = Inr va
      \<and> normalized (JStr ''10.1'') = Inr vb \<and> in_caret_range va vb"
    by blast
  moreover have o: "ignoreMinor \<lparr>ignoreMinor = True, ignorePatch = True, allowHigherVersions = False\<rparr>"
    "\<not> allowHigherVersions \<lparr>ignoreMinor = True, ignorePatch = True, allowHigherVersions = False\<rparr>"
    by simp_all
  moreover have "compareBrowserSemvers (JStr ''10.3.1'') (JStr ''10.1'')
        \<lparr>ignoreMinor = True, ignorePatch = True, allowHigherVersions = False\<rparr> = Inr True \<longleftrightarrow>
      (\<exists>va vb. normalized (JStr ''10.3.1'') = Inr va
         \<and> normalized (JStr ''10.1'') = Inr vb \<and> in_caret_range va vb)"
    using ignoreMinor_caret_range[OF o, of "JStr ''10.3.1''" "JStr ''10.1''"] by blast
  ultimately have "compareBrowserSemvers (JStr ''10.3.1'') (JStr ''10.1'')
        \<lparr>ignoreMinor = True, ignorePatch = True, allowHigherVersions = False\<rparr> = Inr True"
    by blast
  with o n1 n2 r show ?thesis by blast
qed

text \<open>
  C9 as stated fails: the candidate 10.0.0 has the major component of the reference 10.1.0
  and does not qualify, with \<^verbatim>\<open>ignoreMinor\<close> and \<^verbatim>\<open>ignorePatch\<close> both set.
\<close>

theorem same_major_counterexample:
  "compareBrowserSemvers (JStr ''10.0.0'') (JStr ''10.1.0'')
     \<lparr>ignoreMinor = True, ignorePatch = True, allowHigherVersions = False\<rparr> = Inr False
   \<and> normalized (JStr ''10.0.0'') = Inr (10, 0, 0)
   \<and> normalized (JStr ''10.1.0'') = Inr (10, 1, 0)"
  by code_simp

section \<open>The match engine\<close>

lemma lower_char_idem: "lower_char (lower_char c) = lower_char c"
  by (auto simp: lower_char_def Let_def)

lemma same_letter_lower: "same_letter c d \<Longrightarrow> lower_char c = lower_char d"
  by (auto simp: same_letter_def lower_char_idem)

lemma case_variant_toLowerCase: "case_variant s t \<Longrightarrow> toLowerCase s = toLowerCase t"
  unfolding case_variant_def toLowerCase_def
  by (induction rule: list_all2_induct) (auto dest: same_letter_lower)

lemma array_some_False: "array_some p xs = Inr False \<Longrightarrow> \<forall>x\<in>set xs. p x = Inr False"
  by (induction xs) (auto split: sum.splits bool.splits if_splits)

lemma array_some_returns:
  "\<forall>x\<in>set xs. \<exists>b. p x = Inr b \<Longrightarrow> array_some p xs = Inr (\<exists>x\<in>set xs. p x = Inr True)"
proof (induction xs)
  case Nil
  then show ?case by simp
next
  case (Cons x xs)
  then obtain b where "p x = Inr b" by auto
  with Cons show ?case by (cases b) auto
qed

lemma array_some_cong:
  "list_all2 (\<lambda>x y. p x = q y) xs ys \<Longrightarrow> array_some p xs = array_some q ys"
  by (induction rule: list_all2_induct) (auto split: sum.splits bool.splits)

lemma target_matches_True:
  "target_matches resolved options t = Inr True \<longleftrightarrow>
     toLowerCase (family t) = toLowerCase (family resolved)
     \<and> compareBrowserSemvers (JStr (version resolved)) (JStr (version t)) options = Inr True"
  by (simp add: target_matches_def toLocaleLowerCase_def)

text \<open>
  C4. Let the query engine answer, the answer parse to a list of targets and the user agent
  resolve. Then a call of \<^verbatim>\<open>matchesUA\<close> that returns, returns \<^verbatim>\<open>true\<close> if and only if some
  target has the family of the resolved browser up to letter case and a version for which
  the comparison policy holds, with the resolved version as candidate and the target's
  version as reference; it does return, with that truth value, when no comparison raises.
  The result is the same for a resolved family and target families that differ from the
  given ones in letter case only.
\<close>

theorem matchesUA_iff:
  assumes bl: "call_browserslist w opts = Inr tokens"
      and pb: "parseBrowsersList tokens = Inr targets"
      and ru: "resolveUserAgent w uaString = Inr resolved"
  shows "(\<forall>b. matchesUA w uaString opts = Inr b \<longrightarrow>
            (b \<longleftrightarrow> (\<exists>t\<in>set targets.
                     toLowerCase (family t) = toLowerCase (family resolved)
                     \<and> compareBrowserSemvers (JStr (version resolved)) (JStr (version t))
                          (merge_options opts) = Inr True)))
       \<and> ((\<forall>t\<in>set targets. \<exists>b. target_matches resolved (merge_options opts) t = Inr b) \<longrightarrow>
            matchesUA w uaString opts =
              Inr (\<exists>t\<in>set targets.
                     toLowerCase (family t) = toLowerCase (family resolved)
                     \<and> compareBrowserSemvers (JStr (version resolved)) (JStr (version t))
                          (merge_options opts) = Inr True))
       \<and> (\<forall>w' ua' tokens' targets' resolved'.
            call_browserslist w' opts = Inr tokens'
            \<and> parseBrowsersList tokens' = Inr targets'
            \<and> resolveUserAgent w' ua' = Inr resolved'
            \<and> case_variant (family resolved) (family resolved')
            \<and> version resolved' = version resolved
            \<and> list_all2 (\<lambda>t t'. case_variant (family t) (family t') \<and> version t' = version t)
                 targets targets' \<longrightarrow>
            matchesUA w' ua' opts = matchesUA w uaString opts)"
proof -
  let ?p = "target_matches resolved (merge_options opts)"
  let ?hit = "\<exists>t\<in>set targets.
                toLowerCase (family t) = toLowerCase (family resolved)
                \<and> compareBrowserSemvers (JStr (version resolved)) (JStr (version t))
                     (merge_options opts) = Inr True"
  have m: "matchesUA w uaString opts = array_some ?p targets"
    by (rule matchesUA_unfold[OF bl pb ru])
  have hit: "?hit \<longleftrightarrow> (\<exists>t\<in>set targets. ?p t = Inr True)"
    by (simp add: target_matches_True)
  have a: "\<forall>b. matchesUA w uaString opts = Inr b \<longrightarrow> (b \<longleftrightarrow> ?hit)"
  proof (intro allI impI)
    fix b assume r: "matchesUA w uaString opts = Inr b"
    show "b \<longleftrightarrow> ?hit"
    proof (cases b)
      case True
      with r m have "array_some ?p targets = Inr True" by simp
      from array_some_True[OF this] True hit show ?thesis by simp
    next
      case False
      with r m have "array_some ?p targets = Inr False" by simp
      from array_some_False[OF this] False hit show ?thesis by simp
    qed
  qed
  have b: "(\<forall>t\<in>set targets. \<exists>b. ?p t = Inr b) \<longrightarrow> matchesUA w uaString opts = Inr ?hit"
    using array_some_returns[of targets ?p] m hit by simp
  have c: "\<forall>w' ua' tokens' targets' resolved'.
            call_browserslist w' opts = Inr tokens'
            \<and> parseBrowsersList tokens' = Inr targets'
            \<and> resolveUserAgent w' ua' = Inr resolved'
            \<and> case_variant (family resolved) (family resolved')
            \<and> version resolved' = version resolved
            \<and> list_all2 (\<lambda>t t'. case_variant (family t) (family t') \<and> version t' = version t)
                 targets targets' \<longrightarrow>
            matchesUA w' ua' opts = matchesUA w uaString opts"
  proof (intro allI impI, elim conjE)
    fix w' ua' tokens' targets' resolved'
    assume bl': "call_browserslist w' opts = Inr tokens'"
      and pb': "parseBrowsersList tokens' = Inr targets'"
      and ru': "resolveUserAgent w' ua' = Inr resolved'"
      and cv: "case_variant (family resolved) (family resolved')"
      and v: "version resolved' = version resolved"
      and ts: "list_all2 (\<lambda>t t'. case_variant (family t) (family t') \<and> version t' = version t)
                 targets targets'"
    have "list_all2 (\<lambda>t' t. target_matches resolved' (merge_options opts) t' = ?p t)
            targets' targets"
      using ts case_variant_toLowerCase[OF cv] v
      by (induction rule: list_all2_induct)
         (auto simp: target_matches_def toLocaleLowerCase_def dest: case_variant_toLowerCase)
    from array_some_cong[OF this] m matchesUA_unfold[OF bl' pb' ru']
    show "matchesUA w' ua' opts = matchesUA w uaString opts" by simp
  qed
  from a b c show ?thesis by blast
qed

lemma sample_resolved_mac:
  "resolveUserAgent sample_world ua_mac_safari = Inr \<lparr>family = ''Safari'', version = ''13.0.4''\<rparr>"
  by code_simp

theorem matchesUA_iff_witness:
  "call_browserslist sample_world no_opts
     = Inr [''ios_saf 13.0-13.3'', ''safari 13'', ''chrome 79'', ''safari TP'']
   \<and> parseBrowsersList [''ios_saf 13.0-13.3'', ''safari 13'', ''chrome 79'', ''safari TP'']
       = Inr sample_parsed
   \<and> resolveUserAgent sample_world ua_mac_safari
       = Inr \<lparr>family = ''Safari'', version = ''13.0.4''\<rparr>
   \<and> matchesUA sample_world ua_mac_safari no_opts = Inr True
   \<and> (\<exists>t\<in>set sample_parsed.
         toLowerCase (family t) = toLowerCase ''Safari''
         \<and> compareBrowserSemvers (JStr ''13.0.4'') (JStr (version t)) (merge_options no_opts)
             = Inr True)"
proof -
  have r: "matchesUA sample_world ua_mac_safari no_opts = Inr True"
    by code_simp
  have "\<forall>b. matchesUA sample_world ua_mac_safari no_opts = Inr b \<longrightarrow>
          (b \<longleftrightarrow> (\<exists>t\<in>set sample_parsed.
             toLowerCase (family t)
               = toLowerCase (family \<lparr>family = ''Safari'', version = ''13.0.4''\<rparr>)
             \<and> compareBrowserSemvers
                 (JStr (version \<lparr>family = ''Safari'', version = ''13.0.4''\<rparr>))
                 (JStr (version t)) (merge_options no_opts) = Inr True))"
    using matchesUA_iff[OF sample_tokens sample_targets sample_resolved_mac] by blast
  from this[rule_format, OF r] have "\<exists>t\<in>set sample_parsed.
         toLowerCase (family t) = toLowerCase ''Safari''
         \<and> compareBrowserSemvers (JStr ''13.0.4'') (JStr (version t)) (merge_options no_opts)
             = Inr True"
    by simp
  with sample_tokens sample_targets sample_resolved_mac r show ?thesis by blast
qed

section \<open>The range expander\<close>

lemma range_loop_stop:
  "semver_gte e c = Inr False \<Longrightarrow> range_loop e c acc = Inr acc"
  by (subst range_loop.simps) simp

lemma range_loop_full:
  "semver_gte e c = Inr True \<Longrightarrow> MAX_ARRAY_LENGTH \<le> length acc \<Longrightarrow>
   range_loop e c acc = Inl RangeError"
  by (subst range_loop.simps) simp

lemma range_loop_step:
  "semver_gte e c = Inr True \<Longrightarrow> length acc < MAX_ARRAY_LENGTH \<Longrightarrow>
   semver_inc_minor c = Inr (Some n) \<Longrightarrow>
   range_loop e c acc = range_loop e n (acc @ [c])"
  by (subst range_loop.simps) simp

lemma semver_gte_format:
  "valid_semver x \<Longrightarrow> valid_semver y \<Longrightarrow>
   semver_gte (semver_format x) (semver_format y) = Inr (version_geq x y)"
  by (simp add: semver_gte_iff semver_new_of_format)

lemma semver_inc_minor_format:
  "valid_semver (M, m, p) \<Longrightarrow>
   semver_inc_minor (semver_format (M, m, p)) = Inr (Some (semver_format (M, m + 1, 0)))"
  by (simp add: semver_inc_minor_def semver_parse_format)

lemma range_loop_same_major:
  assumes e: "valid_semver (M, em, ep)" and top: "em < MAX_SAFE_INTEGER"
  shows "em - m = k \<Longrightarrow> version_geq (M, em, ep) (M, m, p) \<Longrightarrow> valid_semver (M, m, p) \<Longrightarrow>
         length acc + k < MAX_ARRAY_LENGTH \<Longrightarrow>
         range_loop (semver_format (M, em, ep)) (semver_format (M, m, p)) acc
           = Inr (acc @ map semver_format ((M, m, p) # map (\<lambda>i. (M, i, 0)) [m + 1 ..< em + 1]))"
proof (induction k arbitrary: m p acc)
  case 0
  from 0(2) have mle: "m \<le> em" by (auto simp: version_geq_def)
  with 0(1) have m: "m = em" by simp
  have gte: "semver_gte (semver_format (M, em, ep)) (semver_format (M, m, p)) = Inr True"
    using e 0 by (simp add: semver_gte_format)
  have next_valid: "valid_semver (M, em + 1, 0)"
    using e top by (simp add: valid_semver_def)
  have stop: "semver_gte (semver_format (M, em, ep)) (semver_format (M, em + 1, 0)) = Inr False"
    using e next_valid by (simp add: semver_gte_format version_geq_def)
  show ?case
    using range_loop_step[OF gte _ semver_inc_minor_format[OF 0(3)], of acc] 0(4) m
      range_loop_stop[OF stop]
    by simp
next
  case (Suc k)
  from Suc(2) have lt: "m < em" by simp
  have gte: "semver_gte (semver_format (M, em, ep)) (semver_format (M, m, p)) = Inr True"
    using e Suc by (simp add: semver_gte_format)
  have next_valid: "valid_semver (M, m + 1, 0)"
    using e lt by (simp add: valid_semver_def)
  have next_geq: "version_geq (M, em, ep) (M, m + 1, 0)"
    using lt by (auto simp: version_geq_def)
  have "range_loop (semver_format (M, em, ep)) (semver_format (M, m + 1, 0))
          (acc @ [semver_format (M, m, p)])
        = Inr ((acc @ [semver_format (M, m, p)])
               @ map semver_format ((M, m + 1, 0) # map (\<lambda>i. (M, i, 0)) [m + 1 + 1 ..< em + 1]))"
    using Suc(2) Suc(5) by (intro Suc.IH[OF _ next_geq next_valid]) simp_all
  moreover have "[m + 1 ..< em + 1] = (m + 1) # [m + 1 + 1 ..< em + 1]"
    using lt by (simp add: upt_conv_Cons)
  ultimately show ?case
    using range_loop_step[OF gte _ semver_inc_minor_format[OF Suc(4)], of acc] Suc(5)
    by simp
qed

lemma range_loop_major_gap:
  assumes e: "valid_semver (E, em, ep)" and gap: "M < E"
  shows "MAX_ARRAY_LENGTH - length acc = k \<Longrightarrow> m + k \<le> MAX_SAFE_INTEGER \<Longrightarrow>
         p \<le> MAX_SAFE_INTEGER \<Longrightarrow>
         range_loop (semver_format (E, em, ep)) (semver_format (M, m, p)) acc = Inl RangeError"
proof (induction k arbitrary: m p acc)
  case 0
  have v: "valid_semver (M, m, p)"
    using e gap 0 by (simp add: valid_semver_def)
  have gte: "semver_gte (semver_format (E, em, ep)) (semver_format (M, m, p)) = Inr True"
    using e v gap by (simp add: semver_gte_format version_geq_def)
  from 0(1) show ?case by (intro range_loop_full[OF gte]) simp
next
  case (Suc k)
  have v: "valid_semver (M, m, p)"
    using e gap Suc by (simp add: valid_semver_def)
  have gte: "semver_gte (semver_format (E, em, ep)) (semver_format (M, m, p)) = Inr True"
    using e v gap by (simp add: semver_gte_format version_geq_def)
  have "range_loop (semver_format (E, em, ep)) (semver_format (M, m + 1, 0))
          (acc @ [semver_format (M, m, p)]) = Inl RangeError"
    using Suc by (intro Suc.IH) simp_all
  then show ?case
    using range_loop_step[OF gte _ semver_inc_minor_format[OF v], of acc] Suc(2) by simp
qed

lemma generateSemversInRange_unfold:
  assumes "split_on CHR ''-'' versionRange = A # B # rest"
      and "normalized (JStr A) = Inr vs" and "normalized (JStr B) = Inr ve"
  shows "generateSemversInRange versionRange
           = range_loop (semver_format ve) (semver_format vs) []"
proof -
  from assms(2) obtain x where x: "semverify (JStr A) = Inr x" "semver_new x = Inr vs"
    by (auto simp: normalized_iff)
  from assms(3) obtain y where y: "semverify (JStr B) = Inr y" "semver_new y = Inr ve"
    by (auto simp: normalized_iff)
  from x y assms(1) show ?thesis
    using semver_new_format[of x vs] semver_new_format[of y ve]
    by (simp add: generateSemversInRange_def element_or_def)
qed

lemma normalized_valid: "normalized v = Inr x \<Longrightarrow> valid_semver x"
  by (auto simp: normalized_iff dest: semver_new_valid)

text \<open>
  C1, as amended. For every range token "start-end" whose normalized end version is
  strictly less than its normalized start version, the range expander returns the empty
  sequence: the guard of the loop is tested before anything is pushed, so the body never
  runs.
\<close>

theorem generateSemversInRange_reversed:
  assumes sp: "split_on CHR ''-'' versionRange = A # B # rest"
      and nA: "normalized (JStr A) = Inr vs"
      and nB: "normalized (JStr B) = Inr ve"
      and lt: "\<not> version_geq ve vs"
  shows "generateSemversInRange versionRange = Inr []"
proof -
  have "semver_gte (semver_format ve) (semver_format vs) = Inr False"
    using normalized_valid[OF nA] normalized_valid[OF nB] lt by (simp add: semver_gte_format)
  then show ?thesis
    by (simp add: generateSemversInRange_unfold[OF sp nA nB] range_loop_stop)
qed

theorem generateSemversInRange_reversed_witness:
  "split_on CHR ''-'' ''4.4.4-4.4.3'' = [''4.4.4'', ''4.4.3'']
   \<and> normalized (JStr ''4.4.4'') = Inr (4, 4, 4)
   \<and> normalized (JStr ''4.4.3'') = Inr (4, 4, 3)
   \<and> \<not> version_geq (4, 4, 3) (4, 4, 4)
   \<and> generateSemversInRange ''4.4.4-4.4.3'' = Inr []"
proof -
  have sp: "split_on CHR ''-'' ''4.4.4-4.4.3'' = [''4.4.4'', ''4.4.3'']" by simp
  have nA: "normalized (JStr ''4.4.4'') = Inr (4, 4, 4)" by code_simp
  have nB: "normalized (JStr ''4.4.3'') = Inr (4, 4, 3)" by code_simp
  have lt: "\<not> version_geq (4, 4, 3) (4, 4, 4)" by (simp add: version_geq_def)
  from generateSemversInRange_reversed[OF sp nA nB lt] sp nA nB lt show ?thesis by blast
qed

text \<open>
  C1 as stated fails: the token 10.2-10.0 expands to the empty sequence, not to the
  one-element sequence of its start.
\<close>

theorem reversed_range_counterexample:
  "normalized (JStr ''10.2'') = Inr (10, 2, 0)
   \<and> normalized (JStr ''10.0'') = Inr (10, 0, 0)
   \<and> \<not> version_geq (10, 0, 0) (10, 2, 0)
   \<and> generateSemversInRange ''10.2-10.0'' = Inr []
   \<and> generateSemversInRange ''10.2-10.0'' \<noteq> Inr [''10.2.0'']"
  by code_simp

text \<open>
  C7, as amended. For every range token "A-B" whose normalized ends have the same major
  component, with normalize(A) at most normalize(B), the minor component of B below
  \<open>2^53 - 1\<close> and fewer than \<open>2^32 - 1\<close> minor versions from A to B, the range expander returns
  the sequence that starts with normalize(A) and goes on with the minor versions
  \<open>M.(m+1).0\<close>, ..., up to the minor component of B: each element is the one before with the
  minor component incremented and the patch component 0, the sequence is strictly
  increasing, and no element exceeds normalize(B).
\<close>

theorem generateSemversInRange_same_major:
  assumes sp: "split_on CHR ''-'' versionRange = A # B # rest"
      and nA: "normalized (JStr A) = Inr (M, m, p)"
      and nB: "normalized (JStr B) = Inr (M, em, ep)"
      and le: "version_geq (M, em, ep) (M, m, p)"
      and top: "em < MAX_SAFE_INTEGER"
      and cnt: "em - m < MAX_ARRAY_LENGTH"
  shows "\<exists>vs. generateSemversInRange versionRange = Inr (map semver_format vs)
           \<and> vs = (M, m, p) # map (\<lambda>i. (M, i, 0)) [m + 1 ..< em + 1]
           \<and> semverify (JStr A) = Inr (semver_format (hd vs))
           \<and> (\<forall>i. Suc i < length vs \<longrightarrow>
                 vs ! Suc i = (fst (vs ! i), fst (snd (vs ! i)) + 1, 0))
           \<and> (\<forall>i. Suc i < length vs \<longrightarrow> \<not> version_geq (vs ! i) (vs ! Suc i))
           \<and> (\<forall>v\<in>set vs. version_geq (M, em, ep) v)"
proof -
  define vs where "vs = (M, m, p) # map (\<lambda>i. (M, i, 0)) [m + 1 ..< em + 1]"
  have run: "generateSemversInRange versionRange = Inr (map semver_format vs)"
    using range_loop_same_major[OF normalized_valid[OF nB] top refl le normalized_valid[OF nA],
        of "[]"] cnt
    by (simp add: generateSemversInRange_unfold[OF sp nA nB] vs_def)
  have first: "semverify (JStr A) = Inr (semver_format (hd vs))"
    using nA semver_new_format by (auto simp: normalized_iff vs_def)
  have nth: "vs ! i = (if i = 0 then (M, m, p) else (M, m + i, 0))" if "i < length vs" for i
    using that by (cases i) (auto simp: vs_def simp del: upt_Suc)
  have step: "\<forall>i. Suc i < length vs \<longrightarrow> vs ! Suc i = (fst (vs ! i), fst (snd (vs ! i)) + 1, 0)"
    by (auto simp: nth)
  have incr: "\<forall>i. Suc i < length vs \<longrightarrow> \<not> version_geq (vs ! i) (vs ! Suc i)"
    by (auto simp: nth version_geq_def)
  have below: "\<forall>v\<in>set vs. version_geq (M, em, ep) v"
    using le by (auto simp: vs_def version_geq_def)
  from run first step incr below vs_def show ?thesis by blast
qed

theorem generateSemversInRange_same_major_witness:
  "split_on CHR ''-'' ''10.0-10.2'' = [''10.0'', ''10.2'']
   \<and> normalized (JStr ''10.0'') = Inr (10, 0, 0)
   \<and> normalized (JStr ''10.2'') = Inr (10, 2, 0)
   \<and> version_geq (10, 2, 0) (10, 0, 0)
   \<and> (2::nat) < MAX_SAFE_INTEGER \<and> (2::nat) - 0 < MAX_ARRAY_LENGTH
   \<and> generateSemversInRange ''10.0-10.2'' = Inr [''10.0.0'', ''10.1.0'', ''10.2.0'']"
proof -
  have sp: "split_on CHR ''-'' ''10.0-10.2'' = [''10.0'', ''10.2'']" by simp
  have nA: "normalized (JStr ''10.0'') = Inr (10, 0, 0)" by code_simp
  have nB: "normalized (JStr ''10.2'') = Inr (10, 2, 0)" by code_simp
  have le: "version_geq (10, 2, 0) (10, 0, 0)" by (simp add: version_geq_def)
  have top: "(2::nat) < MAX_SAFE_INTEGER" by (simp add: MAX_SAFE_INTEGER_def)
  have cnt: "(2::nat) - 0 < MAX_ARRAY_LENGTH" by (simp add: MAX_ARRAY_LENGTH_def)
  have "generateSemversInRange ''10.0-10.2''
          = Inr (map semver_format ((10, 0, 0) # map (\<lambda>i. (10, i, 0)) [0 + 1 ..< 2 + 1]))"
    using generateSemversInRange_same_major[OF sp nA nB le top cnt] by blast
  moreover have "map semver_format ((10, 0, 0) # map (\<lambda>i. (10, i, 0)) [0 + 1 ..< 2 + 1])
          = [''10.0.0'', ''10.1.0'', ''10.2.0'']"
    by code_simp
  ultimately show ?thesis using sp nA nB le top cnt by simp
qed

text \<open>
  C7 as stated fails when the major components differ: for the token 1.0-2.0 the loop steps
  through 1.0.0, 1.1.0, 1.2.0, ... and every one of them is below 2.0.0, so no sequence is
  returned; the array grows until \<^verbatim>\<open>push\<close> raises \<^verbatim>\<open>RangeError\<close> (on a real machine the memory
  is exhausted before).
\<close>

theorem major_gap_counterexample:
  "normalized (JStr ''1.0'') = Inr (1, 0, 0)
   \<and> normalized (JStr ''2.0'') = Inr (2, 0, 0)
   \<and> version_geq (2, 0, 0) (1, 0, 0)
   \<and> generateSemversInRange ''1.0-2.0'' = Inl RangeError"
proof -
  have sp: "split_on CHR ''-'' ''1.0-2.0'' = [''1.0'', ''2.0'']" by simp
  have nA: "normalized (JStr ''1.0'') = Inr (1, 0, 0)" by code_simp
  have nB: "normalized (JStr ''2.0'') = Inr (2, 0, 0)" by code_simp
  have le: "version_geq (2, 0, 0) (1, 0, 0)" by (simp add: version_geq_def)
  have "range_loop (semver_format (2, 0, 0)) (semver_format (1, 0, 0)) [] = Inl RangeError"
    by (rule range_loop_major_gap[OF normalized_valid[OF nB], where k = MAX_ARRAY_LENGTH])
       (simp_all add: MAX_ARRAY_LENGTH_def MAX_SAFE_INTEGER_def)
  with generateSemversInRange_unfold[OF sp nA nB] nA nB le show ?thesis by simp
qed

section \<open>Normalization of a version\<close>

lemma int_literal_show_int: "int_literal (show_int n)"
proof (cases "n < 0")
  case True
  then show ?thesis by (simp add: int_literal_def show_int_def digits_show_nat)
next
  case False
  obtain d ds where d: "show_nat (nat n) = d # ds" by (cases "show_nat (nat n)") auto
  with show_nat_digits[of "nat n"] have "d \<noteq> CHR ''-''" by auto
  with d False digits_show_nat[of "nat n"] show ?thesis
    by (simp add: int_literal_def show_int_def)
qed

lemma digits_show_int: "0 \<le> n \<Longrightarrow> digits (show_int n)"
  by (simp add: show_int_def digits_show_nat)

lemma dot_notin_show_int: "CHR ''.'' \<notin> set (show_int n)"
  using dot_notin_show_nat by (simp add: show_int_def)

lemma split_on_three:
  "sep \<notin> set a \<Longrightarrow> sep \<notin> set b \<Longrightarrow> sep \<notin> set c \<Longrightarrow>
   split_on sep (a @ sep # b @ sep # c) = [a, b, c]"
  by (simp add: split_on_append split_on_no_sep)

lemma show_int_0: "show_int 0 = ''0''"
  by (simp add: show_int_def show_nat_0)

lemma parseInt_zero: "parseInt ''0'' = Inr (Num 0)"
  by code_simp

lemma parseInt_Nil: "parseInt [] = Inr NaN"
  by (simp add: parseInt_def)

lemma parseNumber_absent: "parseNumber (JNum 0) = Inr 0"
  by (simp add: parseNumber_def show_int_0 parseInt_zero)

lemma parseNumber_empty: "parseNumber (JStr []) = Inr 0"
  by (simp add: parseNumber_def parseInt_Nil)

lemma parseNumber_NaN: "parseInt x = Inr NaN \<Longrightarrow> parseNumber (JStr x) = Inr 0"
  by (simp add: parseNumber_def)

lemma parseNumber_returns:
  "parseInt x \<noteq> Inl Unmodelled \<Longrightarrow> \<exists>n. parseNumber (JStr x) = Inr n"
  using parseInt_error[of x] by (cases "parseInt x") (auto simp: parseNumber_def)

lemma parseInt_nonneg:
  assumes "CHR ''-'' \<notin> set x" "parseInt x = Inr (Num n)"
  shows "0 \<le> n"
proof -
  have "c \<noteq> CHR ''-''" if "dropWhile is_white x = c # r" for c r
  proof -
    have "c \<in> set (dropWhile is_white x)" by (simp add: that)
    then have "c \<in> set x" by (rule set_dropWhileD)
    with assms(1) show ?thesis by auto
  qed
  then have "(case dropWhile is_white x of [] \<Rightarrow> 1
              | c # _ \<Rightarrow> if c = CHR ''-'' then - 1 else (1::int)) = 1"
    by (simp split: list.splits)
  with assms(2) show ?thesis
    by (auto simp: parseInt_def Let_def split: if_splits)
qed

lemma parseNumber_nonneg:
  "CHR ''-'' \<notin> set x \<Longrightarrow> parseNumber (JStr x) = Inr n \<Longrightarrow> 0 \<le> n"
  using parseInt_nonneg[of x]
  by (auto simp: parseNumber_def bindE_eq_Inr split: if_splits number.splits)

lemma set_split_on: "p \<in> set (split_on sep s) \<Longrightarrow> set p \<subseteq> set s"
proof (induction s arbitrary: p)
  case Nil
  then show ?case by simp
next
  case (Cons c cs)
  obtain q qs where q: "split_on sep cs = q # qs" by (cases "split_on sep cs") auto
  with Cons show ?case by (fastforce split: if_splits)
qed

text \<open>The three components that \<^verbatim>\<open>getNormalizedVersion\<close> parses.\<close>

lemma element_or_cases:
  "element_or (take 3 sp) i (JNum 0) =
     (if i < 3 \<and> i < length sp then JStr (sp ! i) else JNum 0)"
  by (auto simp: element_or_def)

lemma getNormalizedVersion_JStr:
  "getNormalizedVersion (JStr s) = Inr r \<longleftrightarrow>
     (\<exists>a b c.
        parseNumber (element_or (take 3 (split_on CHR ''.'' s)) 0 (JNum 0)) = Inr a
        \<and> parseNumber (element_or (take 3 (split_on CHR ''.'' s)) 1 (JNum 0)) = Inr b
        \<and> parseNumber (element_or (take 3 (split_on CHR ''.'' s)) 2 (JNum 0)) = Inr c
        \<and> r = show_int a @ ''.'' @ show_int b @ ''.'' @ show_int c)"
  by (auto simp: getNormalizedVersion_def Let_def bindE_eq_Inr)

lemma component_returns:
  assumes "\<forall>x\<in>set (take 3 sp). parseInt x \<noteq> Inl Unmodelled"
  shows "\<exists>n. parseNumber (element_or (take 3 sp) i (JNum 0)) = Inr n"
proof (cases "i < length (take 3 sp)")
  case True
  then have "take 3 sp ! i \<in> set (take 3 sp)" by (rule nth_mem)
  with assms True show ?thesis
    using parseNumber_returns[of "take 3 sp ! i"] by (auto simp: element_or_def)
next
  case False
  then show ?thesis by (auto simp: element_or_def parseNumber_absent)
qed

lemma component_nonneg:
  assumes "CHR ''-'' \<notin> set s"
      and "parseNumber (element_or (take 3 (split_on CHR ''.'' s)) i (JNum 0)) = Inr n"
  shows "0 \<le> n"
proof (cases "i < 3 \<and> i < length (split_on CHR ''.'' s)")
  case True
  then have "split_on CHR ''.'' s ! i \<in> set (split_on CHR ''.'' s)" by simp
  from set_split_on[OF this] assms(1) have "CHR ''-'' \<notin> set (split_on CHR ''.'' s ! i)" by auto
  with assms(2) True show ?thesis
    using parseNumber_nonneg by (auto simp: element_or_cases)
next
  case False
  with assms(2) show ?thesis by (auto simp: element_or_cases parseNumber_absent)
qed

lemma component_zero:
  assumes "length sp \<le> i \<or> sp ! i = [] \<or> parseInt (sp ! i) = Inr NaN"
  shows "parseNumber (element_or (take 3 sp) i (JNum 0)) = Inr 0"
  using assms
  by (auto simp: element_or_cases parseNumber_absent parseNumber_empty parseNumber_NaN)

text \<open>
  C2, as amended. For an absent input and for every string (the empty string and garbage
  text too), \<^verbatim>\<open>getNormalizedVersion\<close> never raises; it returns, as long as the digits of each
  of the first three pieces stay within \<open>2^53 - 1\<close>, and what it returns is a string of
  exactly three dot-separated integers. A piece that is absent, empty or does not parse as
  an integer becomes 0. The integers are non-negative when the input has no minus sign. A
  number, or \<^verbatim>\<open>null\<close>, has no method \<^verbatim>\<open>split\<close>: the call raises \<^verbatim>\<open>TypeError\<close>.
\<close>

theorem getNormalizedVersion_total:
  "getNormalizedVersion JUndefined = Inr ''0.0.0''
   \<and> getNormalizedVersion (JStr []) = Inr ''0.0.0''
   \<and> getNormalizedVersion (JStr s) \<notin> {Inl TypeError, Inl RangeError, Inl QueryError}
   \<and> ((\<forall>x\<in>set (take 3 (split_on CHR ''.'' s)). parseInt x \<noteq> Inl Unmodelled) \<longrightarrow>
        (\<exists>r. getNormalizedVersion (JStr s) = Inr r))
   \<and> (\<forall>r. getNormalizedVersion (JStr s) = Inr r \<longrightarrow>
        (\<exists>a b c. split_on CHR ''.'' r = [a, b, c]
                  \<and> int_literal a \<and> int_literal b \<and> int_literal c)
        \<and> (CHR ''-'' \<notin> set s \<longrightarrow> list_all digits (split_on CHR ''.'' r))
        \<and> (\<forall>i<3. length (split_on CHR ''.'' s) \<le> i \<or> split_on CHR ''.'' s ! i = []
                    \<or> parseInt (split_on CHR ''.'' s ! i) = Inr NaN \<longrightarrow>
                  split_on CHR ''.'' r ! i = ''0''))
   \<and> getNormalizedVersion (JNum n) = Inl TypeError
   \<and> getNormalizedVersion JNull = Inl TypeError"
proof -
  let ?sp = "split_on CHR ''.'' s"
  let ?c = "\<lambda>i. parseNumber (element_or (take 3 ?sp) i (JNum 0))"
  have u: "getNormalizedVersion JUndefined = Inr ''0.0.0''"
    by code_simp
  have e: "getNormalizedVersion (JStr []) = Inr ''0.0.0''"
    by code_simp
  have t: "getNormalizedVersion (JStr s) \<notin> {Inl TypeError, Inl RangeError, Inl QueryError}"
    using getNormalizedVersion_error[of "JStr s"] by auto
  have r: "(\<forall>x\<in>set (take 3 ?sp). parseInt x \<noteq> Inl Unmodelled) \<longrightarrow>
        (\<exists>r. getNormalizedVersion (JStr s) = Inr r)"
  proof
    assume a: "\<forall>x\<in>set (take 3 ?sp). parseInt x \<noteq> Inl Unmodelled"
    from component_returns[OF a, of 0] component_returns[OF a, of 1] component_returns[OF a, of 2]
    show "\<exists>r. getNormalizedVersion (JStr s) = Inr r"
      unfolding getNormalizedVersion_JStr by blast
  qed
  have shape: "\<forall>r. getNormalizedVersion (JStr s) = Inr r \<longrightarrow>
        (\<exists>a b c. split_on CHR ''.'' r = [a, b, c]
                  \<and> int_literal a \<and> int_literal b \<and> int_literal c)
        \<and> (CHR ''-'' \<notin> set s \<longrightarrow> list_all digits (split_on CHR ''.'' r))
        \<and> (\<forall>i<3. length ?sp \<le> i \<or> ?sp ! i = [] \<or> parseInt (?sp ! i) = Inr NaN \<longrightarrow>
                  split_on CHR ''.'' r ! i = ''0'')"
  proof (intro allI impI)
    fix r assume "getNormalizedVersion (JStr s) = Inr r"
    then obtain a b c where a: "?c 0 = Inr a" and b: "?c 1 = Inr b" and c: "?c 2 = Inr c"
      and r: "r = show_int a @ ''.'' @ show_int b @ ''.'' @ show_int c"
      unfolding getNormalizedVersion_JStr by blast
    have sp: "split_on CHR ''.'' r = [show_int a, show_int b, show_int c]"
      using split_on_three[of "CHR ''.''" "show_int a" "show_int b" "show_int c"]
      by (simp add: r dot_notin_show_int)
    have p1: "\<exists>a b c. split_on CHR ''.'' r = [a, b, c]
                  \<and> int_literal a \<and> int_literal b \<and> int_literal c"
      using sp by (simp add: int_literal_show_int)
    have p2: "CHR ''-'' \<notin> set s \<longrightarrow> list_all digits (split_on CHR ''.'' r)"
      using sp component_nonneg[OF _ a] component_nonneg[OF _ b] component_nonneg[OF _ c]
      by (simp add: digits_show_int)
    have p3: "\<forall>i<3. length ?sp \<le> i \<or> ?sp ! i = [] \<or> parseInt (?sp ! i) = Inr NaN \<longrightarrow>
                  split_on CHR ''.'' r ! i = ''0''"
    proof (intro allI impI)
      fix i :: nat
      assume i: "i < 3" and z: "length ?sp \<le> i \<or> ?sp ! i = [] \<or> parseInt (?sp ! i) = Inr NaN"
      from component_zero[OF z] have "?c i = Inr 0" .
      moreover from i have "i = 0 \<or> i = 1 \<or> i = 2" by auto
      ultimately show "split_on CHR ''.'' r ! i = ''0''"
        using a b c sp by (auto simp: show_int_0)
    qed
    show "(\<exists>a b c. split_on CHR ''.'' r = [a, b, c]
                  \<and> int_literal a \<and> int_literal b \<and> int_literal c)
        \<and> (CHR ''-'' \<notin> set s \<longrightarrow> list_all digits (split_on CHR ''.'' r))
        \<and> (\<forall>i<3. length ?sp \<le> i \<or> ?sp ! i = [] \<or> parseInt (?sp ! i) = Inr NaN \<longrightarrow>
                  split_on CHR ''.'' r ! i = ''0'')"
      by (intro conjI) (rule p1 p2 p3)+
  qed
  have n: "getNormalizedVersion (JNum n) = Inl TypeError"
    by (simp add: getNormalizedVersion_def)
  have l: "getNormalizedVersion JNull = Inl TypeError"
    by (simp add: getNormalizedVersion_def)
  show ?thesis
    by (intro conjI) (rule u e t r shape n l)+
qed

theorem getNormalizedVersion_total_witness:
  "getNormalizedVersion (JStr ''12.abc'') = Inr ''12.0.0''
   \<and> list_all (\<lambda>x. parseInt x \<noteq> Inl Unmodelled) (take 3 (split_on CHR ''.'' ''12.abc''))
   \<and> CHR ''-'' \<notin> set ''12.abc''
   \<and> parseInt (split_on CHR ''.'' ''12.abc'' ! 1) = Inr NaN
   \<and> length (split_on CHR ''.'' ''12.abc'') \<le> 2
   \<and> list_all digits (split_on CHR ''.'' ''12.0.0'')
   \<and> split_on CHR ''.'' ''12.0.0'' ! 1 = ''0''
   \<and> split_on CHR ''.'' ''12.0.0'' ! 2 = ''0''"
proof -
  have g: "getNormalizedVersion (JStr ''12.abc'') = Inr ''12.0.0''" by code_simp
  have s: "list_all (\<lambda>x. parseInt x \<noteq> Inl Unmodelled) (take 3 (split_on CHR ''.'' ''12.abc''))"
    by code_simp
  have m: "CHR ''-'' \<notin> set ''12.abc''" by simp
  have nan: "parseInt (split_on CHR ''.'' ''12.abc'' ! 1) = Inr NaN" by code_simp
  have len: "length (split_on CHR ''.'' ''12.abc'') \<le> 2" by simp
  note T = getNormalizedVersion_total[of "''12.abc''", THEN conjunct2, THEN conjunct2,
      THEN conjunct2, THEN conjunct2, THEN conjunct1, THEN spec, THEN mp, OF g]
  from T m have d: "list_all digits (split_on CHR ''.'' ''12.0.0'')"
    by (elim conjE) simp
  from T have z: "\<forall>i<3. length (split_on CHR ''.'' ''12.abc'') \<le> i
                    \<or> split_on CHR ''.'' ''12.abc'' ! i = []
                    \<or> parseInt (split_on CHR ''.'' ''12.abc'' ! i) = Inr NaN \<longrightarrow>
                  split_on CHR ''.'' ''12.0.0'' ! i = ''0''"
    by (elim conjE)
  from z[THEN spec, of 1] nan have z1: "split_on CHR ''.'' ''12.0.0'' ! 1 = ''0''"
    by simp
  from z[THEN spec, of 2] len have z2: "split_on CHR ''.'' ''12.0.0'' ! 2 = ''0''"
    by simp
  show ?thesis
    by (intro conjI) (rule g s m nan len d z1 z2)+
qed

text \<open>
  C2 as stated fails twice: the string -1 normalizes to a negative component, and a number
  makes the call raise.
\<close>

theorem normalization_counterexample:
  "getNormalizedVersion (JStr ''-1'') = Inr ''-1.0.0''
   \<and> getNormalizedVersion (JNum 10) = Inl TypeError"
  by code_simp

end
